theory Spec2Isabelle
  imports Main
begin

section \<open>Values and events\<close>

text \<open>
  JavaScript values as far as the reactive core inspects them. \<open>Ref a\<close> is a reference
  to the heap object at address \<open>a\<close>. \<open>NaN\<close> is kept apart from the other numbers because
  the setter of a tracked property treats it specially.
\<close>

datatype jsval = Undefined | Null | Bool bool | Num int | NaN | Str string | Ref nat

text \<open>Strict equality \<open>===\<close>: identity, except that \<open>NaN\<close> differs from itself.\<close>

definition strict_eq :: "jsval \<Rightarrow> jsval \<Rightarrow> bool" where
  "strict_eq a b = (a = b \<and> a \<noteq> NaN)"

text \<open>What a call of user code (a getter) ends with.\<close>

datatype outcome = Returns jsval | Throws

text \<open>
  Observable calls into collaborators, recorded in the order they happen:
  \<open>warn\<close> and \<open>handleError\<close> diagnostics, invocations of a watcher's getter and callback,
  calls of \<open>Watcher.update\<close>, and the watchers run by a flush.
\<close>

datatype event =
    Warn string
  | HandleError string
  | GetterCalled nat
  | Saw nat nat jsval
  | CbCalled nat jsval jsval
  | UpdateCalled nat
  | Ran nat
  | Hook string nat
  | UserCallback nat
  | CustomSetterCalled nat
  | DevtoolsFlush

text \<open>How a call ends: normally, or by a throw that leaves the caller as well.\<close>

datatype completion = Normal | Thrown

section \<open>Dep and Watcher: dependency tracking\<close>

text \<open>
  A \<open>Dep\<close> is identified by its \<open>id\<close> (\<open>uid++\<close> in the constructor), a \<open>Watcher\<close> by its
  \<open>id\<close> (\<open>++uid\<close>). Arrays of Deps and of Watchers are lists of ids; the two \<open>Set\<close>s of
  Dep ids of a watcher are sets of ids. The getter is user code: given the values stored
  in the tracked properties it says which properties it reads, in order, and how it ends.
\<close>

record watcher =
  deep :: bool
  user :: bool
  lazy :: bool
  sync :: bool
  dirty :: bool
  active :: bool
  deps :: "nat list"
  newDeps :: "nat list"
  depIds :: "nat set"
  newDepIds :: "nat set"
  getter :: "(nat \<Rightarrow> jsval) \<Rightarrow> nat list \<times> outcome"
  deep_deps :: "(nat \<Rightarrow> jsval) \<Rightarrow> nat list"
  renders :: bool
  wvalue :: jsval

text \<open>
  The closure of one \<open>defineReactive\<close> call, named by the id of its \<open>dep\<close>: the stored
  \<open>val\<close>, \<open>childOb\<close> (an Observer, named by the id of its own \<open>dep\<close>), and the \<open>shallow\<close>
  and \<open>customSetter\<close> arguments.
\<close>

record cell =
  c_val :: jsval
  c_childOb :: "nat option"
  c_shallow :: bool
  c_customSetter :: bool

text \<open>The callbacks handed to \<open>nextTick\<close>, and the kind of task a timer function registers.\<close>

datatype callback = FlushSchedulerQueue | UserCb nat

datatype timer = MicroTask | MacroTask

text \<open>
  Heap objects. \<open>isPlainObject\<close> looks at the \<open>toString\<close> tag only, so it holds of
  ordinary objects, of VNodes and of Vue instances alike; \<open>Exotic\<close> stands for the
  objects with another tag (dates, regular expressions, functions). A Vue instance is
  the object with the own property \<open>_isVue\<close>. Property keys are names or array indices;
  an own property is a data property (value, configurable or not, writable or not) or
  the accessor pair installed by \<open>defineReactive\<close>, named by the id of its \<open>dep\<close>.
  User-defined accessors are not part of the object model. The elements of an array are
  \<open>o_items\<close>, its other own properties are slots like those of any object. \<open>o_ob\<close> is
  the own property \<open>__ob__\<close> when it holds an Observer. \<open>o_protos\<close> are the objects of
  the heap along the prototype chain, nearest first (as \<open>Object.create\<close> and constructors
  set it up); the chain then ends in the built-in prototypes, whose keys are
  \<open>o_inherited\<close>. Relinking a prototype (\<open>__proto__\<close>, \<open>setPrototypeOf\<close>) is not part of
  the model.
\<close>

datatype okind = PlainObject | ArrayObject | VNodeObject | VueInstance | Exotic

datatype pkey = Name string | Idx nat

datatype slot = Data jsval bool bool | Reactive nat

record obj =
  o_kind :: okind
  o_extensible :: bool
  o_ob :: "nat option"
  o_keys :: "pkey list"
  o_slots :: "pkey \<Rightarrow> slot option"
  o_items :: "jsval list"
  o_protos :: "nat list"
  o_inherited :: "pkey set"

text \<open>An Observer, named by the id of its \<open>dep\<close>: the object it wraps and \<open>vmCount\<close>.\<close>

record observer =
  ob_value :: nat
  ob_vmCount :: nat

text \<open>
  The module-level variables of \<open>dep.js\<close>, \<open>scheduler.js\<close> and \<open>next-tick.js\<close>, the
  watchers and the reactive properties, the build flag \<open>process.env.NODE_ENV\<close>, and the
  log of events. \<open>has\<close> holds the ids \<open>id\<close> with \<open>has[id] != null\<close>; \<open>circular\<close> counts
  from \<open>0\<close> (\<open>circular[id] || 0\<close>). \<open>timers\<close> are the \<open>flushCallbacks\<close> tasks registered
  with the host and not yet run.
\<close>

record state =
  subs :: "nat \<Rightarrow> nat list"
  target :: "nat option"
  targetStack :: "nat list"
  watchers :: "nat \<Rightarrow> watcher"
  cells :: "nat \<Rightarrow> cell"
  heap :: "nat \<Rightarrow> obj"
  observers :: "nat \<Rightarrow> observer"
  depUid :: nat
  shouldObserve :: bool
  serverRendering :: bool
  production :: bool
  devtools :: bool
  queue :: "nat list"
  activatedChildren :: "nat list"
  has :: "nat set"
  circular :: "nat \<Rightarrow> nat"
  waiting :: bool
  flushing :: bool
  index :: nat
  callbacks :: "callback list"
  pending :: bool
  useMacroTask :: bool
  timers :: "timer list"
  events :: "event list"

definition emit :: "event \<Rightarrow> state \<Rightarrow> state" where
  "emit e s = s\<lparr>events := events s @ [e]\<rparr>"

text \<open>
  \<open>Dep.target\<close> is only ever tested for truthiness, so \<open>None\<close> stands for both \<open>null\<close>
  and \<open>undefined\<close>. \<open>targetStack\<close> grows at its end, as \<open>push\<close> and \<open>pop\<close> do;
  \<open>pop\<close> on the empty array yields \<open>undefined\<close>.
\<close>

definition pushTarget :: "nat option \<Rightarrow> state \<Rightarrow> state" where
  "pushTarget t s =
     s\<lparr>targetStack := (case target s of
                          Some c \<Rightarrow> targetStack s @ [c]
                        | None \<Rightarrow> targetStack s),
       target := t\<rparr>"

definition popTarget :: "state \<Rightarrow> state" where
  "popTarget s =
     s\<lparr>target := (if targetStack s = [] then None else Some (last (targetStack s))),
       targetStack := butlast (targetStack s)\<rparr>"

definition addSub :: "nat \<Rightarrow> nat \<Rightarrow> state \<Rightarrow> state" where
  "addSub d w s = s\<lparr>subs := (subs s)(d := subs s d @ [w])\<rparr>"

text \<open>
  Modelled from the spec: \<open>remove(arr, item)\<close> of the shared utilities is not among the
  sources; unsubscribing deletes the watcher's (first) entry from the subscriber array.
\<close>

definition removeSub :: "nat \<Rightarrow> nat \<Rightarrow> state \<Rightarrow> state" where
  "removeSub d w s = s\<lparr>subs := (subs s)(d := remove1 w (subs s d))\<rparr>"

definition addDep :: "nat \<Rightarrow> nat \<Rightarrow> state \<Rightarrow> state" where
  "addDep w d s =
     (let wr = watchers s w in
      if d \<notin> newDepIds wr then
        (let s1 = s\<lparr>watchers := (watchers s)
                     (w := wr\<lparr>newDepIds := insert d (newDepIds wr),
                              newDeps := newDeps wr @ [d]\<rparr>)\<rparr>
         in if d \<notin> depIds wr then addSub d w s1 else s1)
      else s)"

definition depend :: "nat \<Rightarrow> state \<Rightarrow> state" where
  "depend d s = (case target s of None \<Rightarrow> s | Some w \<Rightarrow> addDep w d s)"

text \<open>\<open>while (i--)\<close> walks \<open>this.deps\<close> from its last entry to its first.\<close>

definition cleanupDeps :: "nat \<Rightarrow> state \<Rightarrow> state" where
  "cleanupDeps w s =
     (let wr = watchers s w;
          s1 = fold (\<lambda>d st. if d \<notin> newDepIds wr then removeSub d w st else st)
                    (rev (deps wr)) s
      in s1\<lparr>watchers := (watchers s1)
               (w := wr\<lparr>depIds := newDepIds wr, newDepIds := {},
                        deps := newDeps wr, newDeps := []\<rparr>)\<rparr>)"

text \<open>
  \<open>Watcher.get\<close> with the behaviour of this call of the getter given: \<open>ds\<close> are the Deps
  whose \<open>depend()\<close> the getter reaches, in order, \<open>out\<close> is how it ends, and \<open>ts\<close> are the
  Deps that \<open>traverse(value)\<close> touches (\<open>traverse\<close> is not among the sources). A throw of
  a user watcher's getter is handed to \<open>handleError\<close> and the value stays \<open>undefined\<close>;
  any other throw leaves \<open>get\<close> after the \<open>finally\<close> block has run.
\<close>

definition Watcher_get ::
  "nat \<Rightarrow> nat list \<Rightarrow> outcome \<Rightarrow> nat list \<Rightarrow> state \<Rightarrow> outcome \<times> state" where
  "Watcher_get w ds out ts s =
     (let wr = watchers s w;
          s1 = pushTarget (Some w) s;
          s2 = fold depend ds (emit (GetterCalled w) s1);
          s3 = (if out = Throws \<and> user wr then emit (HandleError ''getter'') s2 else s2);
          res = (if out = Throws \<and> user wr then Returns Undefined else out);
          s4 = (if deep wr then fold depend ts s3 else s3);
          s5 = popTarget s4;
          s6 = cleanupDeps w s5
      in (res, s6))"

text \<open>
  The state of a watcher between two runs: nothing is pending in \<open>newDeps\<close>, \<open>depIds\<close>
  holds the ids of \<open>deps\<close>, and the watcher has exactly one entry in the subscriber array
  of each Dep of \<open>deps\<close> and none anywhere else. The constructor establishes it (all four
  collections empty, no subscription yet) and every \<open>get\<close> re-establishes it.
\<close>

definition tracked :: "state \<Rightarrow> nat \<Rightarrow> bool" where
  "tracked s w =
     (let wr = watchers s w in
      newDeps wr = [] \<and> newDepIds wr = {} \<and> depIds wr = set (deps wr) \<and>
      distinct (deps wr) \<and>
      (\<forall>d. count_list (subs s d) w = (if d \<in> set (deps wr) then 1 else 0)))"

definition deps_read :: "state \<Rightarrow> nat \<Rightarrow> nat list \<Rightarrow> nat list \<Rightarrow> nat set" where
  "deps_read s w ds ts = set ds \<union> (if deep (watchers s w) then set ts else {})"

section \<open>Deferred callbacks: nextTick\<close>

text \<open>
  \<open>nextTick\<close> appends the callback and, unless a task is already pending, registers one
  \<open>flushCallbacks\<close> task with the host: a macrotask under \<open>useMacroTask\<close>, a microtask
  otherwise. The promise it may return is not modelled.
\<close>

definition nextTick :: "callback \<Rightarrow> state \<Rightarrow> state" where
  "nextTick cb s =
     (let s1 = s\<lparr>callbacks := callbacks s @ [cb]\<rparr> in
      if \<not> pending s1
      then s1\<lparr>pending := True,
              timers := timers s1 @ [if useMacroTask s1 then MacroTask else MicroTask]\<rparr>
      else s1)"

section \<open>The scheduler queue\<close>

definition MAX_UPDATE_COUNT :: nat where
  "MAX_UPDATE_COUNT = 100"

definition resetSchedulerState :: "state \<Rightarrow> state" where
  "resetSchedulerState s =
     s\<lparr>index := 0, queue := [], activatedChildren := [], has := {},
       circular := (if \<not> production s then (\<lambda>_. 0) else circular s),
       waiting := False, flushing := False\<rparr>"

text \<open>
  The \<open>while\<close> loop of \<open>queueWatcher\<close>, on \<open>j = i + 1\<close>: it starts at the length of the
  queue and steps down while \<open>i > index\<close> and \<open>queue[i].id > watcher.id\<close>; the watcher
  is spliced in at position \<open>j\<close>.
\<close>

fun splice_pos :: "nat list \<Rightarrow> nat \<Rightarrow> nat \<Rightarrow> nat \<Rightarrow> nat" where
  "splice_pos q idx w 0 = 0"
| "splice_pos q idx w (Suc i) =
     (if i > idx \<and> q ! i > w then splice_pos q idx w i else Suc i)"

definition queueWatcher :: "nat \<Rightarrow> state \<Rightarrow> state" where
  "queueWatcher w s =
     (if w \<notin> has s then
        (let s1 = s\<lparr>has := insert w (has s)\<rparr>;
             s2 = (if \<not> flushing s1 then s1\<lparr>queue := queue s1 @ [w]\<rparr>
                   else (let j = splice_pos (queue s1) (index s1) w (length (queue s1))
                         in s1\<lparr>queue := take j (queue s1) @ [w] @ drop j (queue s1)\<rparr>))
         in if \<not> waiting s2 then nextTick FlushSchedulerQueue (s2\<lparr>waiting := True\<rparr>)
            else s2)
      else s)"

definition queueActivatedComponent :: "nat \<Rightarrow> state \<Rightarrow> state" where
  "queueActivatedComponent vm s = s\<lparr>activatedChildren := activatedChildren s @ [vm]\<rparr>"

section \<open>Watcher: evaluation and notification\<close>

text \<open>
  Modelled from the spec: \<open>isObject\<close> of the shared utilities is not among the sources;
  it holds of plain objects and arrays, that is, of every non-null object.
\<close>

definition isObject :: "jsval \<Rightarrow> bool" where
  "isObject v = (case v of Ref _ \<Rightarrow> True | _ \<Rightarrow> False)"

definition vals :: "state \<Rightarrow> nat \<Rightarrow> jsval" where
  "vals s c = c_val (cells s c)"

text \<open>
  \<open>Watcher.get\<close> with the watcher's own getter: the getter is evaluated on the values
  stored now, and each read is recorded with the value it saw.
\<close>

definition get :: "nat \<Rightarrow> state \<Rightarrow> outcome \<times> state" where
  "get w s =
     (let wr = watchers s w;
          (ds, out) = getter wr (vals s);
          s1 = fold (\<lambda>d. emit (Saw w d (vals s d))) ds s
      in Watcher_get w ds out (deep_deps wr (vals s)) s1)"

text \<open>
  \<open>Watcher.run\<close>. The callback is user code; its call is recorded, its own effects are
  not part of the model.
\<close>

definition run :: "nat \<Rightarrow> state \<Rightarrow> completion \<times> state" where
  "run w s =
     (if active (watchers s w) then
        (case get w s of
           (Throws, s1) \<Rightarrow> (Thrown, s1)
         | (Returns v, s1) \<Rightarrow>
             (let wr = watchers s1 w in
              if \<not> strict_eq v (wvalue wr) \<or> isObject v \<or> deep wr
              then (Normal, emit (CbCalled w v (wvalue wr))
                      (s1\<lparr>watchers := (watchers s1)(w := wr\<lparr>wvalue := v\<rparr>)\<rparr>))
              else (Normal, s1)))
      else (Normal, s))"

definition update :: "nat \<Rightarrow> state \<Rightarrow> completion \<times> state" where
  "update w s =
     (let s1 = emit (UpdateCalled w) s; wr = watchers s1 w in
      if lazy wr then (Normal, s1\<lparr>watchers := (watchers s1)(w := wr\<lparr>dirty := True\<rparr>)\<rparr>)
      else if sync wr then run w s1
      else (Normal, queueWatcher w s1))"

definition evaluate :: "nat \<Rightarrow> state \<Rightarrow> completion \<times> state" where
  "evaluate w s =
     (case get w s of
        (Throws, s1) \<Rightarrow> (Thrown, s1)
      | (Returns v, s1) \<Rightarrow>
          (Normal, s1\<lparr>watchers := (watchers s1)
                       (w := (watchers s1 w)\<lparr>wvalue := v, dirty := False\<rparr>)\<rparr>))"

definition Watcher_depend :: "nat \<Rightarrow> state \<Rightarrow> state" where
  "Watcher_depend w s = fold depend (rev (deps (watchers s w))) s"

definition teardown :: "nat \<Rightarrow> state \<Rightarrow> state" where
  "teardown w s =
     (if active (watchers s w) then
        (let s1 = fold (\<lambda>d. removeSub d w) (rev (deps (watchers s w))) s
         in s1\<lparr>watchers := (watchers s1)(w := (watchers s1 w)\<lparr>active := False\<rparr>)\<rparr>)
      else s)"

text \<open>
  The getter that \<open>createComputedGetter\<close> installs for a computed property whose watcher
  is \<open>w\<close>: evaluate when dirty, let the current target depend on the watcher's Deps,
  return the cached value.
\<close>

definition computedGetter :: "nat \<Rightarrow> state \<Rightarrow> outcome \<times> state" where
  "computedGetter w s =
     (case (if dirty (watchers s w) then evaluate w s else (Normal, s)) of
        (Thrown, s1) \<Rightarrow> (Throws, s1)
      | (Normal, s1) \<Rightarrow>
          (let s2 = (if target s1 \<noteq> None then Watcher_depend w s1 else s1)
           in (Returns (wvalue (watchers s2 w)), s2)))"

text \<open>\<open>Dep.notify\<close>: \<open>update()\<close> on a copy of the subscriber array, entry by entry.\<close>

fun notify_subs :: "nat list \<Rightarrow> state \<Rightarrow> completion \<times> state" where
  "notify_subs [] s = (Normal, s)"
| "notify_subs (w # ws) s =
     (case update w s of
        (Thrown, s1) \<Rightarrow> (Thrown, s1)
      | (Normal, s1) \<Rightarrow> notify_subs ws s1)"

definition notify :: "nat \<Rightarrow> state \<Rightarrow> completion \<times> state" where
  "notify d s = notify_subs (subs s d) s"

section \<open>Observer: making objects reactive\<close>

text \<open>
  Modelled from the spec: \<open>isPlainObject\<close> and \<open>isValidArrayIndex\<close> of the shared
  utilities are not among the sources; the first holds of objects with the plain object
  tag, the second of non-negative integer keys.
\<close>

definition isPlainObject :: "okind \<Rightarrow> bool" where
  "isPlainObject k = (k = PlainObject \<or> k = VNodeObject \<or> k = VueInstance)"

definition isValidArrayIndex :: "pkey \<Rightarrow> bool" where
  "isValidArrayIndex k = (case k of Idx _ \<Rightarrow> True | Name _ \<Rightarrow> False)"

definition Object_prototype :: "pkey set" where
  "Object_prototype =
     {Name ''constructor'', Name ''hasOwnProperty'', Name ''isPrototypeOf'',
      Name ''propertyIsEnumerable'', Name ''toLocaleString'', Name ''toString'',
      Name ''valueOf'', Name ''__proto__'', Name ''__defineGetter__'',
      Name ''__defineSetter__'', Name ''__lookupGetter__'', Name ''__lookupSetter__''}"

definition put_slot :: "nat \<Rightarrow> pkey \<Rightarrow> slot \<Rightarrow> state \<Rightarrow> state" where
  "put_slot a k sl s =
     (let tgt = heap s a in
      s\<lparr>heap := (heap s)
           (a := tgt\<lparr>o_slots := (o_slots tgt)(k \<mapsto> sl),
                   o_keys := (if k \<in> set (o_keys tgt) then o_keys tgt else o_keys tgt @ [k])\<rparr>)\<rparr>)"

text \<open>
  Reading a property goes along the prototype chain: the object itself, then its
  prototypes. \<open>isVue\<close> is \<open>value._isVue\<close>, \<open>lookup_ob\<close> is \<open>target.__ob__\<close> (the nearest
  Observer), \<open>first_slot\<close> finds the nearest property with a given key.
\<close>

definition chain :: "state \<Rightarrow> nat \<Rightarrow> nat list" where
  "chain s a = a # o_protos (heap s a)"

definition isVue :: "state \<Rightarrow> nat \<Rightarrow> bool" where
  "isVue s a = list_ex (\<lambda>p. o_kind (heap s p) = VueInstance) (chain s a)"

primrec first_ob :: "(nat \<Rightarrow> obj) \<Rightarrow> nat list \<Rightarrow> nat option" where
  "first_ob h [] = None"
| "first_ob h (p # ps) = (case o_ob (h p) of Some b \<Rightarrow> Some b | None \<Rightarrow> first_ob h ps)"

definition lookup_ob :: "state \<Rightarrow> nat \<Rightarrow> nat option" where
  "lookup_ob s a = first_ob (heap s) (chain s a)"

primrec first_slot :: "(nat \<Rightarrow> obj) \<Rightarrow> pkey \<Rightarrow> nat list \<Rightarrow> slot option" where
  "first_slot h k [] = None"
| "first_slot h k (p # ps) =
     (case o_slots (h p) k of Some sl \<Rightarrow> Some sl | None \<Rightarrow> first_slot h k ps)"

text \<open>Whether \<open>observe\<close> would wrap the object at address \<open>a\<close> in a new Observer.\<close>

definition observable :: "state \<Rightarrow> nat \<Rightarrow> bool" where
  "observable s a =
     (let tgt = heap s a in
      shouldObserve s \<and> \<not> serverRendering s \<and>
      (o_kind tgt = ArrayObject \<or> isPlainObject (o_kind tgt)) \<and>
      o_extensible tgt \<and> \<not> isVue s a)"

definition count_root :: "bool \<Rightarrow> nat option \<Rightarrow> state \<Rightarrow> state" where
  "count_root asRootData ob s =
     (case ob of
        Some b \<Rightarrow>
          (if asRootData
           then s\<lparr>observers := (observers s)
                     (b := (observers s b)\<lparr>ob_vmCount := ob_vmCount (observers s b) + 1\<rparr>)\<rparr>
           else s)
      | None \<Rightarrow> s)"

text \<open>
  \<open>observe\<close>, the constructor of \<open>Observer\<close> with \<open>walk\<close> and \<open>observeArray\<close>, and
  \<open>defineReactive\<close> call each other along the object graph. Each body is written first
  with the function it calls inside passed in: \<open>obs\<close> stands for \<open>observe\<close>, \<open>ctor\<close> for
  \<open>new Observer\<close>. The \<open>val\<close> argument of \<open>defineReactive\<close> is \<open>None\<close> for a call with two
  arguments. \<open>None\<close> as a result is explained below.
\<close>

definition defineReactive_with ::
  "(jsval \<Rightarrow> bool \<Rightarrow> state \<Rightarrow> (nat option \<times> state) option) \<Rightarrow>
   nat \<Rightarrow> pkey \<Rightarrow> jsval option \<Rightarrow> bool \<Rightarrow> bool \<Rightarrow> state \<Rightarrow> state option" where
  "defineReactive_with obs a k val customSetter shallow s =
     (let d = depUid s;
          s1 = s\<lparr>depUid := depUid s + 1, subs := (subs s)(d := [])\<rparr>
      in case o_slots (heap s a) k of
           Some (Data v False wr) \<Rightarrow> Some s1
         | Some (Reactive c) \<Rightarrow> None
         | sl \<Rightarrow>
             (let v = (case val of
                         Some x \<Rightarrow> x
                       | None \<Rightarrow> (case sl of Some (Data x _ _) \<Rightarrow> x | _ \<Rightarrow> Undefined))
              in case (if shallow then Some (None, s1) else obs v False s1) of
                   None \<Rightarrow> None
                 | Some (childOb, s2) \<Rightarrow>
                     Some (put_slot a k (Reactive d)
                            (s2\<lparr>cells := (cells s2)
                                  (d := \<lparr>c_val = v, c_childOb = childOb, c_shallow = shallow,
                                         c_customSetter = customSetter\<rparr>)\<rparr>))))"

fun walk_with ::
  "(jsval \<Rightarrow> bool \<Rightarrow> state \<Rightarrow> (nat option \<times> state) option) \<Rightarrow>
   nat \<Rightarrow> pkey list \<Rightarrow> state \<Rightarrow> state option" where
  "walk_with obs a [] s = Some s"
| "walk_with obs a (k # ks) s =
     (case defineReactive_with obs a k None False False s of
        None \<Rightarrow> None
      | Some s1 \<Rightarrow> walk_with obs a ks s1)"

fun observeArray_with ::
  "(jsval \<Rightarrow> bool \<Rightarrow> state \<Rightarrow> (nat option \<times> state) option) \<Rightarrow>
   jsval list \<Rightarrow> state \<Rightarrow> state option" where
  "observeArray_with obs [] s = Some s"
| "observeArray_with obs (v # vs) s =
     (case obs v False s of
        None \<Rightarrow> None
      | Some (_, s1) \<Rightarrow> observeArray_with obs vs s1)"

definition Observer_new_with ::
  "(jsval \<Rightarrow> bool \<Rightarrow> state \<Rightarrow> (nat option \<times> state) option) \<Rightarrow>
   nat \<Rightarrow> state \<Rightarrow> (nat \<times> state) option" where
  "Observer_new_with obs a s =
     (let b = depUid s;
          s1 = s\<lparr>depUid := depUid s + 1,
                 subs := (subs s)(b := []),
                 observers := (observers s)(b := \<lparr>ob_value = a, ob_vmCount = 0\<rparr>),
                 heap := (heap s)(a := (heap s a)\<lparr>o_ob := Some b\<rparr>)\<rparr>
      in case (if o_kind (heap s a) = ArrayObject
               then observeArray_with obs (o_items (heap s a)) s1
               else walk_with obs a (o_keys (heap s a)) s1) of
           None \<Rightarrow> None
         | Some s2 \<Rightarrow> Some (b, s2))"

definition observe_with ::
  "(nat \<Rightarrow> state \<Rightarrow> (nat \<times> state) option) \<Rightarrow>
   jsval \<Rightarrow> bool \<Rightarrow> state \<Rightarrow> (nat option \<times> state) option" where
  "observe_with ctor value asRootData s =
     (case value of
        Ref a \<Rightarrow>
          (if o_kind (heap s a) = VNodeObject then Some (None, s)
           else
             (case o_ob (heap s a) of
                Some b \<Rightarrow> Some (Some b, count_root asRootData (Some b) s)
              | None \<Rightarrow>
                  (if observable s a then
                     (case ctor a s of
                        None \<Rightarrow> None
                      | Some (b, s1) \<Rightarrow> Some (Some b, count_root asRootData (Some b) s1))
                   else Some (None, s))))
      | _ \<Rightarrow> Some (None, s))"

text \<open>
  The recursion is tied by a bound on the nesting of Observer constructors: \<open>observe n\<close>
  may nest them \<open>n\<close> deep. \<open>None\<close> is a call that needs a deeper nesting than that, or
  that comes upon a key which already carries the accessors of an earlier
  \<open>defineReactive\<close> (wrapping accessors in accessors is left out of the model).
\<close>

primrec observe :: "nat \<Rightarrow> jsval \<Rightarrow> bool \<Rightarrow> state \<Rightarrow> (nat option \<times> state) option" where
  "observe 0 = observe_with (\<lambda>a s. None)"
| "observe (Suc n) = observe_with (Observer_new_with (observe n))"

definition Observer_new :: "nat \<Rightarrow> nat \<Rightarrow> state \<Rightarrow> (nat \<times> state) option" where
  "Observer_new n = Observer_new_with (observe n)"

definition walk :: "nat \<Rightarrow> nat \<Rightarrow> pkey list \<Rightarrow> state \<Rightarrow> state option" where
  "walk n = walk_with (observe n)"

definition observeArray :: "nat \<Rightarrow> jsval list \<Rightarrow> state \<Rightarrow> state option" where
  "observeArray n = observeArray_with (observe n)"

definition defineReactive ::
  "nat \<Rightarrow> nat \<Rightarrow> pkey \<Rightarrow> jsval option \<Rightarrow> bool \<Rightarrow> bool \<Rightarrow> state \<Rightarrow> state option" where
  "defineReactive n = defineReactive_with (observe n)"

section \<open>Writing properties\<close>

text \<open>
  \<open>reactiveSetter\<close> of the property with Dep \<open>c\<close>. Nothing happens when the new value is
  the stored one by \<open>===\<close>, or when both are \<open>NaN\<close>.
\<close>

definition unchanged :: "jsval \<Rightarrow> jsval \<Rightarrow> bool" where
  "unchanged newVal v = (strict_eq newVal v \<or> (\<not> strict_eq newVal newVal \<and> \<not> strict_eq v v))"

definition store_val :: "nat \<Rightarrow> jsval \<Rightarrow> state \<Rightarrow> state" where
  "store_val c newVal s =
     (let s1 = (if \<not> production s \<and> c_customSetter (cells s c)
                then emit (CustomSetterCalled c) s else s)
      in s1\<lparr>cells := (cells s1)(c := (cells s1 c)\<lparr>c_val := newVal\<rparr>)\<rparr>)"

definition reactiveSetter :: "nat \<Rightarrow> nat \<Rightarrow> jsval \<Rightarrow> state \<Rightarrow> (completion \<times> state) option" where
  "reactiveSetter n c newVal s =
     (if unchanged newVal (c_val (cells s c)) then Some (Normal, s)
      else
        (let s1 = store_val c newVal s in
         case (if c_shallow (cells s1 c) then Some (None, s1) else observe n newVal False s1) of
           None \<Rightarrow> None
         | Some (childOb, s2) \<Rightarrow>
             Some (notify c (s2\<lparr>cells := (cells s2)(c := (cells s2 c)\<lparr>c_childOb := childOb\<rparr>)\<rparr>))))"

text \<open>
  \<open>key in target\<close>: an own property, one of an object along the prototype chain, or one
  of the built-in prototypes. An array owns \<open>length\<close> and its indices.
\<close>

definition own_key :: "obj \<Rightarrow> pkey \<Rightarrow> bool" where
  "own_key tgt k =
     (o_slots tgt k \<noteq> None \<or>
      (o_kind tgt = ArrayObject \<and>
       (case k of Idx i \<Rightarrow> i < length (o_items tgt) | Name nm \<Rightarrow> nm = ''length'')))"

definition has_key :: "state \<Rightarrow> nat \<Rightarrow> pkey \<Rightarrow> bool" where
  "has_key s a k =
     (list_ex (\<lambda>p. own_key (heap s p) k) (chain s a) \<or> k \<in> o_inherited (heap s a))"

text \<open>
  The assignment \<open>target[key] = val\<close> in strict code (the modules are strict). The
  nearest property with the key decides: the setter of a reactive property is called,
  also when the property is inherited; a data property that is not writable refuses
  the assignment with a \<open>TypeError\<close>, also when it is inherited; an own writable data
  property takes the value; otherwise a new own data property is created, which a
  non-extensible object refuses with a \<open>TypeError\<close>. Two assignments are left out of the
  model and yield \<open>None\<close>: to \<open>length\<close> or an index of an array, and to the inherited
  accessor \<open>__proto__\<close>, which relinks the prototype chain.
\<close>

definition put_property :: "nat \<Rightarrow> nat \<Rightarrow> pkey \<Rightarrow> jsval \<Rightarrow> state \<Rightarrow> (completion \<times> state) option" where
  "put_property n a k v s =
     (let tgt = heap s a in
      if o_kind tgt = ArrayObject \<and> (k = Name ''length'' \<or> isValidArrayIndex k) then None
      else
        (case first_slot (heap s) k (chain s a) of
           Some (Reactive c) \<Rightarrow> reactiveSetter n c v s
         | Some (Data _ cfg wr) \<Rightarrow>
             (if \<not> wr then Some (Thrown, s)
              else if o_slots tgt k \<noteq> None then Some (Normal, put_slot a k (Data v cfg True) s)
              else if o_extensible tgt then Some (Normal, put_slot a k (Data v True True) s)
              else Some (Thrown, s))
         | None \<Rightarrow>
             (if k = Name ''__proto__'' \<and> k \<in> o_inherited tgt then None
              else if o_extensible tgt then Some (Normal, put_slot a k (Data v True True) s)
              else Some (Thrown, s))))"

text \<open>
  Modelled from the spec: the array methods of \<open>observer/array.js\<close> are not among the
  sources. \<open>splice(key, 1, val)\<close> on an array puts \<open>val\<close> at index \<open>key\<close>; on an observed
  array it then wraps the inserted element and notifies the shape Dep of the array once.
\<close>

definition splice1 :: "nat \<Rightarrow> jsval \<Rightarrow> jsval list \<Rightarrow> jsval list" where
  "splice1 i v xs = take i xs @ [v] @ drop (Suc i) xs"

definition array_set :: "nat \<Rightarrow> nat \<Rightarrow> nat \<Rightarrow> jsval \<Rightarrow> state \<Rightarrow> (completion \<times> state) option" where
  "array_set n a i v s =
     (let tgt = heap s a;
          xs = o_items tgt @ replicate (i - length (o_items tgt)) Undefined;
          s1 = s\<lparr>heap := (heap s)(a := tgt\<lparr>o_items := splice1 i v xs\<rparr>)\<rparr>
      in case o_ob tgt of
           None \<Rightarrow> Some (Normal, s1)
         | Some b \<Rightarrow>
             (case observeArray n [v] s1 of
                None \<Rightarrow> None
              | Some s2 \<Rightarrow> Some (notify b s2)))"

text \<open>
  \<open>set(target, key, val)\<close> on the object at address \<open>a\<close>; the result is the value
  returned, or a throw. A target that is \<open>undefined\<close>, \<open>null\<close> or primitive is outside the
  model. \<open>target.__ob__\<close> and \<open>target._isVue\<close> are read along the prototype chain, and
  \<open>ob.value\<close>, on which the new property is defined, is the object that owns the
  Observer.
\<close>

definition returning :: "jsval \<Rightarrow> (completion \<times> state) option \<Rightarrow> (outcome \<times> state) option" where
  "returning v r =
     (case r of
        None \<Rightarrow> None
      | Some (Thrown, s) \<Rightarrow> Some (Throws, s)
      | Some (Normal, s) \<Rightarrow> Some (Returns v, s))"

definition root_warning :: event where
  "root_warning = Warn ''Avoid adding reactive properties to a Vue instance or its root $data''"

definition Vue_set :: "nat \<Rightarrow> nat \<Rightarrow> pkey \<Rightarrow> jsval \<Rightarrow> state \<Rightarrow> (outcome \<times> state) option" where
  "Vue_set n a k v s =
     (let tgt = heap s a; ob = lookup_ob s a in
      if o_kind tgt = ArrayObject \<and> isValidArrayIndex k then
        (case k of Idx i \<Rightarrow> returning v (array_set n a i v s) | Name _ \<Rightarrow> None)
      else if has_key s a k \<and> k \<notin> Object_prototype then
        returning v (put_property n a k v s)
      else if isVue s a \<or>
              (case ob of Some b \<Rightarrow> ob_vmCount (observers s b) \<noteq> 0 | None \<Rightarrow> False) then
        Some (Returns v, if \<not> production s then emit root_warning s else s)
      else
        (case ob of
           None \<Rightarrow> returning v (put_property n a k v s)
         | Some b \<Rightarrow>
             (case defineReactive n (ob_value (observers s b)) k (Some v) False False s of
                None \<Rightarrow> None
              | Some s1 \<Rightarrow> returning v (Some (notify b s1)))))"

section \<open>Flushing the queue\<close>

text \<open>
  \<open>callHook\<close> switches dependency collection off around the handlers; the handlers are
  user code and only their call is recorded.
\<close>

definition callHook :: "nat \<Rightarrow> string \<Rightarrow> state \<Rightarrow> state" where
  "callHook w h s = popTarget (emit (Hook h w) (pushTarget None s))"

definition callUpdatedHooks :: "nat list \<Rightarrow> state \<Rightarrow> state" where
  "callUpdatedHooks q s =
     fold (\<lambda>w st. if renders (watchers st w) then callHook w ''updated'' st else st) (rev q) s"

definition callActivatedHooks :: "nat list \<Rightarrow> state \<Rightarrow> state" where
  "callActivatedHooks q s = fold (\<lambda>vm. emit (Hook ''activated'' vm)) q s"

text \<open>
  The \<open>for\<close> loop of \<open>flushSchedulerQueue\<close>. What \<open>watcher.run()\<close> does is the parameter
  \<open>runW\<close>: it is \<open>run\<close> above, or a description of user code that writes to tracked state
  while it runs. The length of the queue is read anew in every round, so the loop need
  not end: the result is the state reached after at most \<open>n\<close> rounds, with \<open>Some c\<close> when
  the loop was left (by its condition, by \<open>break\<close>, or by a throw of \<open>watcher.run()\<close>,
  which leaves the function as well) and \<open>None\<close> when it is still going.
\<close>

definition loop_warning :: event where
  "loop_warning = Warn ''You may have an infinite update loop''"

fun flush_loop ::
  "(nat \<Rightarrow> state \<Rightarrow> completion \<times> state) \<Rightarrow> nat \<Rightarrow> state \<Rightarrow> completion option \<times> state" where
  "flush_loop runW 0 s = (None, s)"
| "flush_loop runW (Suc n) s =
     (if index s < length (queue s) then
        (let w = queue s ! index s;
             s1 = s\<lparr>has := has s - {w}\<rparr>
         in case runW w (emit (Ran w) s1) of
              (Thrown, s2) \<Rightarrow> (Some Thrown, s2)
            | (Normal, s2) \<Rightarrow>
                if \<not> production s2 \<and> w \<in> has s2 then
                  (let s3 = s2\<lparr>circular := (circular s2)(w := circular s2 w + 1)\<rparr> in
                   if circular s3 w > MAX_UPDATE_COUNT
                   then (Some Normal, emit loop_warning s3)
                   else flush_loop runW n (s3\<lparr>index := index s3 + 1\<rparr>))
                else flush_loop runW n (s2\<lparr>index := index s2 + 1\<rparr>))
      else (Some Normal, s))"

text \<open>Entering the flush: \<open>flushing = true\<close>, the queue sorted by id, \<open>index = 0\<close>.\<close>

definition flush_start :: "state \<Rightarrow> state" where
  "flush_start s = s\<lparr>flushing := True, queue := sort (queue s), index := 0\<rparr>"

definition flushSchedulerQueue ::
  "(nat \<Rightarrow> state \<Rightarrow> completion \<times> state) \<Rightarrow> nat \<Rightarrow> state \<Rightarrow> (completion \<times> state) option" where
  "flushSchedulerQueue runW n s =
     (case flush_loop runW n (flush_start s) of
        (None, s1) \<Rightarrow> None
      | (Some Thrown, s1) \<Rightarrow> Some (Thrown, s1)
      | (Some Normal, s1) \<Rightarrow>
          (let activatedQueue = activatedChildren s1;
               updatedQueue = queue s1;
               s2 = resetSchedulerState s1;
               s3 = callActivatedHooks activatedQueue s2;
               s4 = callUpdatedHooks updatedQueue s3
           in Some (Normal, if devtools s4 then emit DevtoolsFlush s4 else s4)))"

text \<open>
  \<open>flushCallbacks\<close>: the task registered by \<open>nextTick\<close>. Each callback runs inside the
  \<open>try\<close> of its wrapper, which hands a throw to \<open>handleError\<close>.
\<close>

fun run_callbacks ::
  "(nat \<Rightarrow> state \<Rightarrow> completion \<times> state) \<Rightarrow> nat \<Rightarrow> callback list \<Rightarrow> state \<Rightarrow> state option" where
  "run_callbacks runW n [] s = Some s"
| "run_callbacks runW n (UserCb k # cbs) s = run_callbacks runW n cbs (emit (UserCallback k) s)"
| "run_callbacks runW n (FlushSchedulerQueue # cbs) s =
     (case flushSchedulerQueue runW n s of
        None \<Rightarrow> None
      | Some (Thrown, s1) \<Rightarrow> run_callbacks runW n cbs (emit (HandleError ''nextTick'') s1)
      | Some (Normal, s1) \<Rightarrow> run_callbacks runW n cbs s1)"

definition flushCallbacks ::
  "(nat \<Rightarrow> state \<Rightarrow> completion \<times> state) \<Rightarrow> nat \<Rightarrow> state \<Rightarrow> state option" where
  "flushCallbacks runW n s =
     run_callbacks runW n (callbacks s) (s\<lparr>pending := False, callbacks := []\<rparr>)"

text \<open>
  User code seen from the scheduler: all a run can do to the queue is to call
  \<open>queueWatcher\<close> (through writes to tracked properties). \<open>beh h w\<close> lists the watchers
  that the run of \<open>w\<close> enqueues, in order, when \<open>h\<close> are the watchers this flush has run
  so far, \<open>w\<close> included.
\<close>

definition ran :: "state \<Rightarrow> nat list" where
  "ran s = concat (map (\<lambda>e. case e of Ran w \<Rightarrow> [w] | _ \<Rightarrow> []) (events s))"

definition user_run :: "(nat list \<Rightarrow> nat \<Rightarrow> nat list) \<Rightarrow> nat \<Rightarrow> state \<Rightarrow> completion \<times> state" where
  "user_run beh w s = (Normal, fold queueWatcher (beh (ran s) w) s)"

section \<open>Rendering a component\<close>

text \<open>
  A VNode as far as \<open>_render\<close> looks at it, the values a render function can come back
  with (a VNode, an array of VNodes, anything else) and the ways its call can end.
\<close>

record vnode =
  vn_tag :: "string option"
  vn_text :: "string option"
  vn_isComment :: bool
  vn_key :: "jsval"
  vn_parent :: "nat option"

datatype rvalue = RNode vnode | RArray "vnode list" | ROther jsval

datatype rcall = Renders rvalue | RenderThrows

text \<open>
  The fields of a component that \<open>_render\<close> uses: \<open>vm._vnode\<close> (the tree of the previous
  render, \<open>null\<close> before the first), \<open>_parentVnode\<close>, and what the calls of
  \<open>$options.render\<close> and of \<open>$options.renderError\<close> (when given) do.
\<close>

record component =
  cmp_vnode :: "vnode option"
  cmp_parentVnode :: "nat option"
  cmp_render :: rcall
  cmp_renderError :: "rcall option"

text \<open>
  Modelled from the spec: \<open>createEmptyVNode\<close> of \<open>vdom/vnode.js\<close> is not among the sources;
  it makes the empty placeholder, a comment node without tag and with empty text.
\<close>

definition createEmptyVNode :: vnode where
  "createEmptyVNode =
     \<lparr>vn_tag = None, vn_text = Some '''', vn_isComment = True, vn_key = Undefined,
      vn_parent = None\<rparr>"

definition previous_tree :: "component \<Rightarrow> rvalue" where
  "previous_tree vm = (case cmp_vnode vm of None \<Rightarrow> ROther Null | Some v \<Rightarrow> RNode v)"

definition render_call :: "bool \<Rightarrow> component \<Rightarrow> event list \<times> rvalue" where
  "render_call prd vm =
     (case cmp_render vm of
        Renders r \<Rightarrow> ([], r)
      | RenderThrows \<Rightarrow>
          (if \<not> prd then
             (case cmp_renderError vm of
                Some (Renders r) \<Rightarrow> ([HandleError ''render''], r)
              | Some RenderThrows \<Rightarrow>
                  ([HandleError ''render'', HandleError ''renderError''], previous_tree vm)
              | None \<Rightarrow> ([HandleError ''render''], previous_tree vm))
           else ([HandleError ''render''], previous_tree vm)))"

definition Vue_render :: "bool \<Rightarrow> component \<Rightarrow> event list \<times> vnode" where
  "Vue_render prd vm =
     (let (ev, r) = render_call prd vm in
      case r of
        RNode v \<Rightarrow> (ev, v\<lparr>vn_parent := cmp_parentVnode vm\<rparr>)
      | RArray vs \<Rightarrow>
          (ev @ (if \<not> prd then [Warn ''Multiple root nodes returned from render function''] else []),
           createEmptyVNode\<lparr>vn_parent := cmp_parentVnode vm\<rparr>)
      | ROther x \<Rightarrow> (ev, createEmptyVNode\<lparr>vn_parent := cmp_parentVnode vm\<rparr>))"

text \<open>
  The constructor's fields: \<open>dirty\<close> starts as \<open>lazy\<close>, the four dependency collections
  start empty. \<open>init_state\<close> is the module state at load time: no subscriber anywhere,
  \<open>Dep.target = null\<close>, an empty \<open>targetStack\<close>. \<open>empty_object\<close> is the object literal
  \<open>{}\<close>; the addresses of the heap that are not in use hold \<open>no_object\<close>, which nothing
  can observe.
\<close>

definition new_watcher ::
  "bool \<Rightarrow> bool \<Rightarrow> bool \<Rightarrow> bool \<Rightarrow> ((nat \<Rightarrow> jsval) \<Rightarrow> nat list \<times> outcome) \<Rightarrow> watcher" where
  "new_watcher dp us lz sy g =
     \<lparr>deep = dp, user = us, lazy = lz, sync = sy, dirty = lz, active = True,
      deps = [], newDeps = [], depIds = {}, newDepIds = {}, getter = g,
      deep_deps = (\<lambda>_. []), renders = False, wvalue = Undefined\<rparr>"

definition empty_object :: obj where
  "empty_object =
     \<lparr>o_kind = PlainObject, o_extensible = True, o_ob = None, o_keys = [],
      o_slots = (\<lambda>_. None), o_items = [], o_protos = [],
      o_inherited = Object_prototype\<rparr>"

definition no_object :: obj where
  "no_object = empty_object\<lparr>o_kind := Exotic, o_extensible := False\<rparr>"

definition init_state :: state where
  "init_state = \<lparr>subs = (\<lambda>_. []), target = None, targetStack = [],
     watchers = (\<lambda>_. new_watcher False False False False (\<lambda>_. ([], Returns Undefined))),
     cells = (\<lambda>_. \<lparr>c_val = Undefined, c_childOb = None, c_shallow = False,
                      c_customSetter = False\<rparr>),
     heap = (\<lambda>_. no_object),
     observers = (\<lambda>_. \<lparr>ob_value = 0, ob_vmCount = 0\<rparr>),
     depUid = 0, shouldObserve = True, serverRendering = False,
     production = False, devtools = False,
     queue = [], activatedChildren = [], has = {}, circular = (\<lambda>_. 0),
     waiting = False, flushing = False, index = 0,
     callbacks = [], pending = False, useMacroTask = False, timers = [],
     events = []\<rparr>"

text \<open>
  While the getter runs, watcher \<open>w\<close> is the target, \<open>depIds\<close> still holds the ids of the
  previous run (\<open>D\<close>), and \<open>w\<close> has one subscriber entry in each Dep of the previous run
  or of this run so far.
\<close>

definition collecting :: "state \<Rightarrow> nat \<Rightarrow> nat set \<Rightarrow> bool" where
  "collecting s w D =
     (let wr = watchers s w in
      target s = Some w \<and> depIds wr = D \<and>
      set (newDeps wr) = newDepIds wr \<and> distinct (newDeps wr) \<and>
      (\<forall>d. count_list (subs s d) w = (if d \<in> D \<union> newDepIds wr then 1 else 0)))"

text \<open>Example states used to instantiate the theorems below.\<close>

definition s_run1 :: state where
  "s_run1 = snd (Watcher_get 1 [10, 20, 10] (Returns Undefined) [] init_state)"

text \<open>
  Watcher 1 is being evaluated and \<open>callHook\<close> (or \<open>getData\<close>) has called \<open>pushTarget()\<close>
  with no argument to switch dependency collection off.
\<close>

definition s_hook :: state where
  "s_hook = pushTarget None (pushTarget (Some 1) init_state)"

definition is_vnode :: "rvalue \<Rightarrow> bool" where
  "is_vnode r = (case r of RNode _ \<Rightarrow> True | _ \<Rightarrow> False)"

definition is_array :: "rvalue \<Rightarrow> bool" where
  "is_array r = (case r of RArray _ \<Rightarrow> True | _ \<Rightarrow> False)"

text \<open>Components whose render function comes back with two roots, and with \<open>undefined\<close>.\<close>

definition old_tree :: vnode where
  "old_tree = \<lparr>vn_tag = Some ''div'', vn_text = None, vn_isComment = False, vn_key = Undefined,
      vn_parent = None\<rparr>"

definition vm_two_roots :: component where
  "vm_two_roots = \<lparr>cmp_vnode = Some old_tree, cmp_parentVnode = None,
     cmp_render = Renders (RArray [old_tree, old_tree]), cmp_renderError = None\<rparr>"

definition vm_undefined :: component where
  "vm_undefined = \<lparr>cmp_vnode = Some old_tree, cmp_parentVnode = None,
     cmp_render = Renders (ROther Undefined), cmp_renderError = None\<rparr>"

section \<open>Projections used in the proofs\<close>

text \<open>
  A watcher and a state with everything that dependency tracking writes blanked out:
  two states with the same \<open>score\<close> differ only in subscriber arrays, the target and
  its stack, the dependency collections of the watchers, and the event log.
\<close>

definition wcore :: "watcher \<Rightarrow> watcher" where
  "wcore wr = wr\<lparr>deps := [], newDeps := [], depIds := {}, newDepIds := {}\<rparr>"

definition score :: "state \<Rightarrow> state" where
  "score s = s\<lparr>subs := (\<lambda>_. []), target := None, targetStack := [], events := [],
               watchers := (\<lambda>x. wcore (watchers s x))\<rparr>"

text \<open>How often the getter of a watcher has been invoked so far.\<close>

definition getter_calls :: "state \<Rightarrow> nat \<Rightarrow> nat" where
  "getter_calls s w = count_list (events s) (GetterCalled w)"

text \<open>
  A computed property \<open>a + b\<close>: watcher 7 is lazy, its getter reads the properties
  with Deps 1 and 2, which hold 2 and 3.
\<close>

definition sum_getter :: "(nat \<Rightarrow> jsval) \<Rightarrow> nat list \<times> outcome" where
  "sum_getter st = ([1, 2], case (st 1, st 2) of (Num a, Num b) \<Rightarrow> Returns (Num (a + b))
                                | _ \<Rightarrow> Returns NaN)"

definition s_computed :: state where
  "s_computed = init_state\<lparr>
     watchers := (watchers init_state)(7 := new_watcher False False True False sum_getter),
     cells := (cells init_state)
       (1 := (cells init_state 1)\<lparr>c_val := Num 2\<rparr>, 2 := (cells init_state 2)\<lparr>c_val := Num 3\<rparr>)\<rparr>"

text \<open>
  Two watchers queued before the flush, and three descriptions of user code: the run of
  watcher 2 writes a property that watcher 1 reads; the run of watcher 1 writes a
  property it reads itself; the run of watcher 1 writes a property that watcher 3 reads.
\<close>

definition s_two_queued :: state where
  "s_two_queued = queueWatcher 2 (queueWatcher 1 init_state)"

definition beh_back :: "nat list \<Rightarrow> nat \<Rightarrow> nat list" where
  "beh_back h w = (if w = 2 then [1] else [])"

definition beh_self :: "nat list \<Rightarrow> nat \<Rightarrow> nat list" where
  "beh_self h w = (if w = 1 then [1] else [])"

definition beh_fwd :: "nat list \<Rightarrow> nat \<Rightarrow> nat list" where
  "beh_fwd h w = (if w = 1 then [3] else [])"

text \<open>User code that, while watcher \<open>w\<close> runs, only enqueues watchers with ids from \<open>w\<close> upwards.\<close>

definition ascending :: "(nat list \<Rightarrow> nat \<Rightarrow> nat list) \<Rightarrow> bool" where
  "ascending beh = (\<forall>h w. \<forall>x \<in> set (beh h w). w \<le> x)"

text \<open>
  The loop invariant of the flush, between rounds and while a watcher runs: the queue is
  sorted and the watchers run so far are the entries before \<open>index\<close> (up to \<open>index\<close>
  while one runs), after those run before the flush (\<open>pre\<close>).
\<close>

definition flush_inv :: "nat list \<Rightarrow> state \<Rightarrow> bool" where
  "flush_inv pre s =
     (flushing s \<and> sorted (queue s) \<and> index s \<le> length (queue s) \<and>
      ran s = pre @ take (index s) (queue s))"

definition run_inv :: "nat list \<Rightarrow> state \<Rightarrow> bool" where
  "run_inv pre s =
     (flushing s \<and> sorted (queue s) \<and> index s < length (queue s) \<and>
      ran s = pre @ take (Suc (index s)) (queue s))"

text \<open>
  What \<open>observe\<close> and \<open>defineReactive\<close> leave alone. \<open>rest\<close> blanks the fields they write;
  \<open>grows s s'\<close> says that \<open>s'\<close> comes from \<open>s\<close> by allocating Deps, installing accessors
  and attaching Observers: Deps and properties that exist in \<open>s\<close> are as they were, an
  Observer that an object carries in \<open>s\<close> is still the one it carries in \<open>s'\<close>, the
  kind, the extensibility and the prototypes of the objects do not change, and an
  accessor or an Observer that is new in \<open>s'\<close> has a Dep allocated on the way from \<open>s\<close>.
\<close>

definition rest :: "state \<Rightarrow> state" where
  "rest s = s\<lparr>heap := (\<lambda>_. undefined), observers := (\<lambda>_. undefined), cells := (\<lambda>_. undefined),
              depUid := 0, subs := (\<lambda>_. [])\<rparr>"

definition grows :: "state \<Rightarrow> state \<Rightarrow> bool" where
  "grows s s' =
     (depUid s \<le> depUid s' \<and> rest s' = rest s \<and>
      (\<forall>d < depUid s. cells s' d = cells s d \<and> subs s' d = subs s d \<and>
                       ob_value (observers s' d) = ob_value (observers s d)) \<and>
      (\<forall>a b. o_ob (heap s a) = Some b \<longrightarrow> o_ob (heap s' a) = Some b) \<and>
      (\<forall>a. o_kind (heap s' a) = o_kind (heap s a) \<and>
           o_extensible (heap s' a) = o_extensible (heap s a) \<and>
           o_protos (heap s' a) = o_protos (heap s a)) \<and>
      (\<forall>a k c. o_slots (heap s' a) k = Some (Reactive c) \<longrightarrow>
           o_slots (heap s a) k = Some (Reactive c) \<or> (depUid s \<le> c \<and> c < depUid s')) \<and>
      (\<forall>a b. o_ob (heap s' a) = Some b \<longrightarrow>
           o_ob (heap s a) = Some b \<or>
           (depUid s \<le> b \<and> b < depUid s' \<and> ob_value (observers s' b) = a)))"

text \<open>
  A heap for the examples: object 1 holds a property \<open>x\<close> whose value is object 2; in
  \<open>s_observed\<close> object 1 has been observed as root data (Observer 0 with \<open>vmCount = 1\<close>,
  property \<open>x\<close> with Dep 1, object 2 with Observer 2); in \<open>s_vm\<close> object 3 is a Vue
  instance and object 4 a plain object that nobody has observed.
\<close>

definition s_heap :: state where
  "s_heap = init_state\<lparr>heap := (heap init_state)
     (1 := empty_object\<lparr>o_keys := [Name ''x''],
            o_slots := (\<lambda>_. None)(Name ''x'' \<mapsto> Data (Ref 2) True True)\<rparr>,
      2 := empty_object)\<rparr>"

definition s_observed :: state where
  "s_observed = snd (the (observe 2 (Ref 1) True s_heap))"

definition s_vm :: state where
  "s_vm = s_observed\<lparr>heap := (heap s_observed)
     (3 := empty_object\<lparr>o_kind := VueInstance\<rparr>, 4 := empty_object)\<rparr>"

section \<open>Getters that do more than read\<close>

text \<open>
  A getter is user code, and it can do more than read tracked properties. A render
  function that mounts a child component runs the child's lifecycle hooks, and \<open>callHook\<close>
  (like \<open>getData\<close>) switches dependency collection off around the handlers with
  \<open>pushTarget()\<close> and \<open>popTarget()\<close>; a handler can evaluate another watcher (\<open>$watch\<close>
  in a \<open>created\<close> hook, the read of a computed property). The steps of a getter, as far
  as dependency tracking sees them: \<open>Read d\<close> is the \<open>reactiveGetter\<close> of the property
  with Dep \<open>d\<close>, which calls \<open>dep.depend()\<close>; \<open>CallHook\<close> runs the steps of the handlers
  between \<open>pushTarget()\<close> and \<open>popTarget()\<close>; \<open>Get w\<close> is \<open>Watcher.get\<close> of watcher
  \<open>w\<close>, given the steps of its getter, how it ends, and the Deps that \<open>traverse\<close>
  touches.
\<close>

datatype action = Read nat | CallHook "action list" | Get nat "action list" outcome "nat list"

text \<open>
  Performing a step. The case of \<open>Get\<close> is the body of \<open>Watcher.get\<close> as in
  \<open>Watcher_get\<close>, with the steps of the getter in the place of its reads.
\<close>

fun act :: "action \<Rightarrow> state \<Rightarrow> state" where
  "act (Read d) s = depend d s"
| "act (CallHook as) s = popTarget (fold act as (pushTarget None s))"
| "act (Get w as out ts) s =
     (let wr = watchers s w;
          s1 = pushTarget (Some w) s;
          s2 = fold act as (emit (GetterCalled w) s1);
          s3 = (if out = Throws \<and> user wr then emit (HandleError ''getter'') s2 else s2);
          s4 = (if deep wr then fold depend ts s3 else s3);
          s5 = popTarget s4
      in cleanupDeps w s5)"

section \<open>Counting the runs of the cycle guard\<close>

text \<open>
  How often a watcher has come out of its own run enqueued again: \<open>requeues beh pre h w\<close>
  counts the runs of \<open>w\<close> among the runs \<open>h\<close> (which follow the runs \<open>pre\<close>) in which
  the user code of \<open>w\<close> enqueued \<open>w\<close> itself. It is what \<open>circular[id]\<close> is meant to
  count, stated without reference to the guard.
\<close>

fun requeues :: "(nat list \<Rightarrow> nat \<Rightarrow> nat list) \<Rightarrow> nat list \<Rightarrow> nat list \<Rightarrow> nat \<Rightarrow> nat" where
  "requeues beh pre [] w = 0"
| "requeues beh pre (x # xs) w =
     (if x = w \<and> w \<in> set (beh (pre @ [x]) w) then 1 else 0) + requeues beh (pre @ [x]) xs w"

section \<open>Invariants of the object graph\<close>

text \<open>
  The objects that \<open>observe\<close> would still wrap, and the shape they have before they are
  wrapped: the keys of \<open>Object.keys\<close> are distinct and none of them carries the
  accessors of \<open>defineReactive\<close> yet. A heap is well-formed when only finitely many
  objects are left to wrap and each of them has that shape.
\<close>

definition unobserved :: "state \<Rightarrow> nat set" where
  "unobserved s =
     {a. o_ob (heap s a) = None \<and> observable s a \<and> o_kind (heap s a) \<noteq> VNodeObject}"

definition clean :: "state \<Rightarrow> nat \<Rightarrow> bool" where
  "clean s a =
     (distinct (o_keys (heap s a)) \<and>
      (\<forall>k \<in> set (o_keys (heap s a)). \<forall>c. o_slots (heap s a) k \<noteq> Some (Reactive c)))"

definition wf_heap :: "state \<Rightarrow> bool" where
  "wf_heap s = (finite (unobserved s) \<and> (\<forall>a \<in> unobserved s. clean s a))"




text \<open>
  The object graph that \<open>observe\<close> follows. \<open>held s sl\<close> is the value behind a property
  that \<open>walk\<close> converts or has converted: the value of a configurable data property,
  or the value stored by a reactive property that is not shallow. \<open>link s a b\<close>: object
  \<open>b\<close> is an element of the array \<open>a\<close>, or the value behind an enumerable own property
  of the object \<open>a\<close>. \<open>keyok\<close> says of one key that the object behind it, if
  \<open>observe\<close> wraps such objects, carries an Observer.
\<close>

definition held :: "state \<Rightarrow> slot \<Rightarrow> jsval option" where
  "held s sl =
     (case sl of
        Data v cfg wr \<Rightarrow> if cfg then Some v else None
      | Reactive c \<Rightarrow> if c_shallow (cells s c) then None else Some (c_val (cells s c)))"

definition link :: "state \<Rightarrow> nat \<Rightarrow> nat \<Rightarrow> bool" where
  "link s a b =
     (if o_kind (heap s a) = ArrayObject then Ref b \<in> set (o_items (heap s a))
      else (\<exists>k \<in> set (o_keys (heap s a)).
              case o_slots (heap s a) k of
                Some sl \<Rightarrow> held s sl = Some (Ref b)
              | None \<Rightarrow> False))"






section \<open>What a write does to the subscribers\<close>


text \<open>
  What a call of \<open>update()\<close> leaves alone: stored values and objects, the flags of the
  watchers, and the getters of the watchers that are lazy or not sync, which it does
  not call; a dirty flag that is set stays set and nothing leaves the queue.
\<close>

definition step_ok :: "state \<Rightarrow> state \<Rightarrow> bool" where
  "step_ok s s' =
     (cells s' = cells s \<and> heap s' = heap s \<and> has s \<subseteq> has s' \<and>
      (\<forall>x. lazy (watchers s' x) = lazy (watchers s x) \<and>
           sync (watchers s' x) = sync (watchers s x) \<and>
           (dirty (watchers s x) \<longrightarrow> dirty (watchers s' x)) \<and>
           (\<not> sync (watchers s x) \<or> lazy (watchers s x) \<longrightarrow>
              getter_calls s' x = getter_calls s x)))"

section \<open>More example states\<close>

text \<open>
  Watcher 1 (a render watcher) reads the property with Dep 10, mounts a child whose
  \<open>created\<close> hook sets up watcher 2 on the property with Dep 30, and then reads the
  property with Dep 20. In \<open>s_torn\<close> the computed watcher 7 has been evaluated,
  invalidated and torn down (\<open>$destroy\<close>), and the computed property is read again.
\<close>

definition s_hooked :: state where
  "s_hooked = act (Get 1 [Read 10, CallHook [Get 2 [Read 30] (Returns Undefined) []], Read 20]
                     (Returns Undefined) []) init_state"

definition s_torn :: state where
  "s_torn = snd (computedGetter 7 (teardown 7 (snd (update 7 (snd (computedGetter 7 s_computed))))))"

text \<open>
  Watchers on the property \<open>x\<close> of the root data (Dep 1): the sync watcher 5 in
  \<open>s_sync\<close>, the ordinary watcher 6 in \<open>s_async\<close>.
\<close>

definition read1 :: "(nat \<Rightarrow> jsval) \<Rightarrow> nat list \<times> outcome" where
  "read1 st = ([1], Returns (st 1))"

definition s_sync :: state where
  "s_sync = snd (get 5 (s_vm\<lparr>watchers := (watchers s_vm)
               (5 := new_watcher False False False True read1)\<rparr>))"


text \<open>
  Object 5 is made with \<open>Object.create\<close> from the root data object 1, object 6 is a
  non-extensible object without properties.
\<close>

definition s_protos :: state where
  "s_protos = s_vm\<lparr>heap := (heap s_vm)
     (5 := empty_object\<lparr>o_protos := [1]\<rparr>, 6 := empty_object\<lparr>o_extensible := False\<rparr>)\<rparr>"




section \<open>Re-tracking of dependencies\<close>

lemma count_list_remove1_same:
  "count_list (remove1 x xs) x = count_list xs x - 1"
  by (induction xs) auto

lemma count_list_remove1_other:
  "y \<noteq> x \<Longrightarrow> count_list (remove1 x xs) y = count_list xs y"
  by (induction xs) auto

lemma depend_collecting:
  assumes "collecting s w D"
  shows "collecting (depend d s) w D"
    and "newDepIds (watchers (depend d s) w) = insert d (newDepIds (watchers s w))"
    and "deps (watchers (depend d s) w) = deps (watchers s w)"
    and "deep (watchers (depend d s) w) = deep (watchers s w)"
    and "targetStack (depend d s) = targetStack s"
  using assms
  by (auto simp: collecting_def depend_def addDep_def addSub_def Let_def)

lemma fold_depend_collecting:
  assumes "collecting s w D"
  shows "collecting (fold depend ds s) w D \<and>
         newDepIds (watchers (fold depend ds s) w) = set ds \<union> newDepIds (watchers s w) \<and>
         deps (watchers (fold depend ds s) w) = deps (watchers s w) \<and>
         deep (watchers (fold depend ds s) w) = deep (watchers s w) \<and>
         targetStack (fold depend ds s) = targetStack s"
  using assms
proof (induction ds arbitrary: s)
  case Nil
  then show ?case by simp
next
  case (Cons d ds)
  from depend_collecting[OF Cons.prems, of d] Cons.IH[of "depend d s"]
  show ?case by auto
qed

lemma fold_removeSub_frame:
  "watchers (fold (\<lambda>d st. if P d then removeSub d w st else st) xs s) = watchers s"
  "target (fold (\<lambda>d st. if P d then removeSub d w st else st) xs s) = target s"
  "targetStack (fold (\<lambda>d st. if P d then removeSub d w st else st) xs s) = targetStack s"
  "events (fold (\<lambda>d st. if P d then removeSub d w st else st) xs s) = events s"
  by (induction xs arbitrary: s) (auto simp: removeSub_def)

lemma fold_removeSub_count:
  "distinct xs \<Longrightarrow>
   count_list (subs (fold (\<lambda>d st. if P d then removeSub d w st else st) xs s) d) w =
     (if d \<in> set xs \<and> P d then count_list (subs s d) w - 1 else count_list (subs s d) w)"
proof (induction xs arbitrary: s)
  case Nil
  then show ?case by simp
next
  case (Cons x xs)
  then show ?case
    by (auto simp: removeSub_def count_list_remove1_same)
qed

lemma cleanupDeps_tracked:
  assumes "collecting s w (set (deps (watchers s w)))" "distinct (deps (watchers s w))"
  shows "tracked (cleanupDeps w s) w"
    and "set (deps (watchers (cleanupDeps w s) w)) = newDepIds (watchers s w)"
  using assms
  by (auto simp: tracked_def cleanupDeps_def collecting_def Let_def
      fold_removeSub_frame fold_removeSub_count)

lemma pushTarget_collecting:
  "tracked s w \<Longrightarrow> collecting (emit (GetterCalled w) (pushTarget (Some w) s)) w (set (deps (watchers s w)))"
  by (auto simp: tracked_def collecting_def pushTarget_def emit_def Let_def)

lemma collecting_emit: "collecting (emit e s) w D = collecting s w D"
  by (auto simp: collecting_def emit_def Let_def)

lemma watchers_emit [simp]: "watchers (emit e s) = watchers s"
  by (simp add: emit_def)

lemma tracked_count_iff:
  "tracked s w \<Longrightarrow> (w \<in> set (subs s d) \<longleftrightarrow> d \<in> set (deps (watchers s w))) \<and> count_list (subs s d) w \<le> 1"
  using count_list_0_iff[of "subs s d" w]
  by (auto simp: tracked_def Let_def split: if_splits)

text \<open>
  Where the getter does nothing but read tracked properties, \<open>Dep.target\<close> is the
  watcher throughout. Then, after \<open>Watcher.get\<close> (the body of \<open>run()\<close> and
  \<open>evaluate()\<close>) of a watcher in its between-runs state, the Deps whose subscriber
  arrays contain the watcher are exactly the Deps read in this run; the watcher has at
  most one entry in every subscriber array; Deps of the previous run that were not read
  again have lost it; and the watcher is back in its between-runs state.
\<close>

lemma retrack_exact:
  assumes "tracked s w"
  shows "let s' = snd (Watcher_get w ds out ts s) in
           (\<forall>d. (w \<in> set (subs s' d) \<longleftrightarrow> d \<in> deps_read s w ds ts) \<and>
                count_list (subs s' d) w \<le> 1) \<and>
           tracked s' w"
proof -
  define s2 where "s2 = fold depend ds (emit (GetterCalled w) (pushTarget (Some w) s))"
  define s3 where "s3 = (if out = Throws \<and> user (watchers s w) then emit (HandleError ''getter'') s2 else s2)"
  define s4 where "s4 = (if deep (watchers s w) then fold depend ts s3 else s3)"
  let ?D = "set (deps (watchers s w))"
  have c2: "collecting s2 w ?D" and n2: "newDepIds (watchers s2 w) = set ds"
    and d2: "deps (watchers s2 w) = deps (watchers s w)"
    using fold_depend_collecting[OF pushTarget_collecting[OF assms], of ds] assms
    by (auto simp: s2_def tracked_def Let_def pushTarget_def emit_def)
  have c3: "collecting s3 w ?D" and n3: "newDepIds (watchers s3 w) = set ds"
    and d3: "deps (watchers s3 w) = deps (watchers s w)"
    using c2 n2 d2 by (auto simp: s3_def collecting_emit)
  have c4: "collecting s4 w ?D" and n4: "newDepIds (watchers s4 w) = deps_read s w ds ts"
    and d4: "deps (watchers s4 w) = deps (watchers s w)"
    using fold_depend_collecting[OF c3, of ts] c3 n3 d3
    by (auto simp: s4_def deps_read_def)
  define s5 where "s5 = popTarget s4"
  have w5: "watchers s5 = watchers s4" and sb5: "subs s5 = subs s4"
    by (simp_all add: s5_def popTarget_def)
  define s6 where "s6 = cleanupDeps w s5"
  have cnt4: "\<forall>d. count_list (subs s4 d) w = (if d \<in> ?D \<union> deps_read s w ds ts then 1 else 0)"
    using c4 n4 by (simp add: collecting_def Let_def)
  have dist: "distinct (deps (watchers s w))" using assms by (simp add: tracked_def Let_def)
  have t6: "tracked s6 w" and dp6: "set (deps (watchers s6 w)) = deps_read s w ds ts"
    using c4 n4 d4 dist cnt4
    by (auto simp: s6_def tracked_def cleanupDeps_def collecting_def Let_def w5 sb5
        fold_removeSub_frame fold_removeSub_count)
  have "snd (Watcher_get w ds out ts s) = s6"
    by (simp add: Watcher_get_def Let_def s6_def s5_def s4_def s3_def s2_def)
  with t6 dp6 tracked_count_iff[OF t6] show ?thesis
    by (simp add: Let_def)
qed

lemmas track_defs = Watcher_get_def init_state_def new_watcher_def pushTarget_def
  popTarget_def emit_def depend_def addDep_def addSub_def cleanupDeps_def removeSub_def

lemma retrack_exact_example:
  "tracked s_run1 1 \<and> 1 \<in> set (subs s_run1 10) \<and>
   (let s' = snd (Watcher_get 1 [20, 30, 30] (Returns Undefined) [] s_run1) in
      1 \<notin> set (subs s' 10) \<and> 1 \<in> set (subs s' 20) \<and> 1 \<in> set (subs s' 30) \<and>
      count_list (subs s' 30) 1 \<le> 1 \<and> tracked s' 1)"
proof -
  have t0: "tracked init_state 1"
    by (simp add: tracked_def init_state_def new_watcher_def)
  have t1: "tracked s_run1 1"
    using retrack_exact[OF t0, of "[10, 20, 10]" "Returns Undefined" "[]"]
    by (simp add: s_run1_def Let_def)
  have sb: "subs s_run1 10 = [1]" and dp: "\<not> deep (watchers s_run1 1)"
    by (simp_all add: s_run1_def track_defs Let_def)
  show ?thesis
    using retrack_exact[OF t1, of "[20, 30, 30]" "Returns Undefined" "[]"] t1 sb dp
    by (simp add: Let_def deps_read_def)
qed

text \<open>A getter made of reads only is the getter of \<open>Watcher_get\<close>.\<close>

lemma act_reads:
  "act (Get w (map Read ds) out ts) s = snd (Watcher_get w ds out ts s)"
proof -
  have "fold act (map Read ds) st = fold depend ds st" for st
    by (induction ds arbitrary: st) simp_all
  then show ?thesis by (simp add: Watcher_get_def Let_def)
qed

lemma hook_in_getter_loses_dependency:
  "subs init_state 10 = [] \<and> deps (watchers init_state 1) = [] \<and>
   subs s_hooked 10 = [1] \<and> subs s_hooked 20 = [] \<and> subs s_hooked 30 = [2] \<and>
   deps (watchers s_hooked 1) = [10] \<and> target s_hooked = None \<and>
   targetStack s_hooked = []"
  by code_simp

lemma evaluate_after_teardown_subscribes_nothing:
  "subs (snd (computedGetter 7 s_computed)) 1 = [7] \<and>
   \<not> active (watchers s_torn 7) \<and> getter_calls s_torn 7 = 2 \<and>
   deps (watchers s_torn 7) = [1, 2] \<and> subs s_torn 1 = [] \<and> subs s_torn 2 = []"
  by (simp add: s_torn_def s_computed_def computedGetter_def evaluate_def update_def
      teardown_def get_def track_defs sum_getter_def Watcher_depend_def vals_def
      getter_calls_def Let_def)

text \<open>
  Claim C1, evaluated on the code. A getter that runs a lifecycle hook in which another
  watcher is evaluated comes back from the hook with \<open>Dep.target\<close> undefined (the
  inner \<open>get\<close> has popped the entry that \<open>callHook\<close> pushed), so the properties it
  reads after the hook are read without \<open>dep.depend()\<close>: watcher 1 reads the Deps 10
  and 20 and ends up subscribed to 10 only. And \<open>evaluate()\<close> does not look at
  \<open>active\<close>: a computed watcher that was torn down runs its getter again, reads the
  Deps 1 and 2, and is in the subscriber array of neither.
\<close>

theorem get_misses_reads:
  "subs s_hooked 10 = [1] \<and> subs s_hooked 20 = [] \<and> deps (watchers s_hooked 1) = [10] \<and>
   target s_hooked = None \<and>
   \<not> active (watchers s_torn 7) \<and> getter_calls s_torn 7 = 2 \<and>
   deps (watchers s_torn 7) = [1, 2] \<and> subs s_torn 1 = [] \<and> subs s_torn 2 = []"
  using hook_in_getter_loses_dependency evaluate_after_teardown_subscribes_nothing by simp

section \<open>The target stack\<close>

text \<open>
  Claim C9, evaluated on the code. With \<open>Dep.target\<close> switched off by \<open>pushTarget()\<close>
  inside the evaluation of watcher 1, \<open>Watcher.get\<close> of watcher 2 does not restore the
  target it found: \<open>pushTarget\<close> skips the push for a falsy target and \<open>popTarget\<close> pops
  all the same, so watcher 1 is installed again and the stack has lost an entry.
\<close>

theorem get_leaves_stale_target:
  "target s_hook = None \<and> targetStack s_hook = [1] \<and>
   target (snd (Watcher_get 2 [] (Returns Undefined) [] s_hook)) = Some 1 \<and>
   targetStack (snd (Watcher_get 2 [] (Returns Undefined) [] s_hook)) = []"
  by (simp add: s_hook_def track_defs Let_def)

text \<open>Where a watcher is the target on entry, or the stack is empty, \<open>get\<close> is balanced.\<close>

lemma fold_depend_target:
  "target (fold depend ds s) = target s \<and> targetStack (fold depend ds s) = targetStack s"
  by (induction ds arbitrary: s)
     (auto simp: depend_def addDep_def addSub_def Let_def split: option.splits)

lemma cleanupDeps_target:
  "target (cleanupDeps w s) = target s \<and> targetStack (cleanupDeps w s) = targetStack s"
  by (simp add: cleanupDeps_def Let_def fold_removeSub_frame)

lemma get_balanced:
  assumes "target s \<noteq> None \<or> targetStack s = []"
  shows "target (snd (Watcher_get w ds out ts s)) = target s \<and>
         targetStack (snd (Watcher_get w ds out ts s)) = targetStack s"
  using assms
  by (cases "target s")
     (simp_all add: Watcher_get_def Let_def cleanupDeps_target fold_depend_target
      popTarget_def pushTarget_def emit_def)

section \<open>Malformed results of a render function\<close>

text \<open>
  Claim C6, as stated, fails: a render function that returns two root nodes gets the
  diagnostic, but the result of the render is the empty placeholder and not the tree of
  the previous render; one that returns \<open>undefined\<close> gets no diagnostic at all.
\<close>

theorem malformed_render_not_retained:
  "snd (Vue_render False vm_two_roots) = createEmptyVNode \<and>
   snd (Vue_render False vm_two_roots) \<noteq> old_tree \<and>
   cmp_vnode vm_two_roots = Some old_tree \<and>
   Vue_render False vm_undefined = ([], createEmptyVNode)"
  by (simp add: Vue_render_def render_call_def vm_two_roots_def vm_undefined_def
      createEmptyVNode_def old_tree_def)

text \<open>
  Claim C6, amended. When the render function returns anything that is not a VNode, the
  result of the render is a fresh empty placeholder VNode with the placeholder parent
  set, not the previous tree; the diagnostic is reported exactly when the value is an
  array and the build is not a production build.
\<close>

theorem malformed_render_gives_empty_vnode:
  assumes "cmp_render vm = Renders r" "\<not> is_vnode r"
  shows "Vue_render prd vm =
           (if \<not> prd \<and> is_array r
            then [Warn ''Multiple root nodes returned from render function''] else [],
            createEmptyVNode\<lparr>vn_parent := cmp_parentVnode vm\<rparr>)"
  using assms
  by (cases r) (simp_all add: Vue_render_def render_call_def is_vnode_def is_array_def)

theorem malformed_render_gives_empty_vnode_witness:
  "cmp_render vm_two_roots = Renders (RArray [old_tree, old_tree]) \<and>
   \<not> is_vnode (RArray [old_tree, old_tree]) \<and>
   Vue_render False vm_two_roots =
     ([Warn ''Multiple root nodes returned from render function''], createEmptyVNode)"
  using malformed_render_gives_empty_vnode[of vm_two_roots "RArray [old_tree, old_tree]" False]
  by (simp add: vm_two_roots_def is_vnode_def is_array_def createEmptyVNode_def)

text \<open>The previous tree is the result on the other path: when the render function throws.\<close>

lemma render_throw_keeps_previous_tree:
  assumes "cmp_render vm = RenderThrows" "prd \<or> cmp_renderError vm = None"
    "cmp_vnode vm = Some old"
  shows "Vue_render prd vm = ([HandleError ''render''], old\<lparr>vn_parent := cmp_parentVnode vm\<rparr>)"
  using assms
  by (auto simp: Vue_render_def render_call_def previous_tree_def)

section \<open>What dependency tracking leaves alone\<close>


lemma score_watcher:
  assumes "score s' = score s"
  shows "wcore (watchers s' x) = wcore (watchers s x)"
  using arg_cong[OF assms, of "\<lambda>t. watchers t x"] by (simp add: score_def)

lemma wcore_fields:
  assumes "wcore a = wcore b"
  shows "deep a = deep b" "user a = user b" "lazy a = lazy b" "sync a = sync b"
    "dirty a = dirty b" "active a = active b" "getter a = getter b"
    "deep_deps a = deep_deps b" "renders a = renders b" "wvalue a = wvalue b"
proof -
  show "deep a = deep b" using arg_cong[OF assms, of deep] by (simp add: wcore_def)
  show "user a = user b" using arg_cong[OF assms, of user] by (simp add: wcore_def)
  show "lazy a = lazy b" using arg_cong[OF assms, of lazy] by (simp add: wcore_def)
  show "sync a = sync b" using arg_cong[OF assms, of sync] by (simp add: wcore_def)
  show "dirty a = dirty b" using arg_cong[OF assms, of dirty] by (simp add: wcore_def)
  show "active a = active b" using arg_cong[OF assms, of active] by (simp add: wcore_def)
  show "getter a = getter b" using arg_cong[OF assms, of getter] by (simp add: wcore_def)
  show "deep_deps a = deep_deps b" using arg_cong[OF assms, of deep_deps] by (simp add: wcore_def)
  show "renders a = renders b" using arg_cong[OF assms, of renders] by (simp add: wcore_def)
  show "wvalue a = wvalue b" using arg_cong[OF assms, of wvalue] by (simp add: wcore_def)
qed

lemmas score_wfields = wcore_fields[OF score_watcher]

lemma score_emit [simp]: "score (emit e s) = score s"
  by (simp add: score_def emit_def)

lemma score_pushTarget [simp]: "score (pushTarget t s) = score s"
  by (simp add: score_def pushTarget_def)

lemma score_popTarget [simp]: "score (popTarget s) = score s"
  by (simp add: score_def popTarget_def)

lemma score_removeSub [simp]: "score (removeSub d w s) = score s"
  by (simp add: score_def removeSub_def)

lemma score_addDep [simp]: "score (addDep w d s) = score s"
  by (auto simp: score_def addDep_def addSub_def Let_def wcore_def fun_eq_iff)

lemma score_depend [simp]: "score (depend d s) = score s"
  by (simp add: depend_def split: option.splits)

lemma score_fold_depend [simp]: "score (fold depend ds s) = score s"
  by (induction ds arbitrary: s) simp_all

lemma score_fold_removeSub [simp]:
  "score (fold (\<lambda>d st. if P d then removeSub d w st else st) xs s) = score s"
  by (induction xs arbitrary: s) simp_all

lemma score_watchers_upd:
  "wcore wr' = wcore (watchers s w) \<Longrightarrow>
   score (s\<lparr>watchers := (watchers s)(w := wr')\<rparr>) = score s"
  by (auto simp: score_def fun_eq_iff)

lemma score_cleanupDeps [simp]: "score (cleanupDeps w s) = score s"
proof -
  define s1 where "s1 = fold (\<lambda>d st. if d \<notin> newDepIds (watchers s w) then removeSub d w st else st)
                (rev (deps (watchers s w))) s"
  define wr' where "wr' = (watchers s w)\<lparr>depIds := newDepIds (watchers s w), newDepIds := {},
                        deps := newDeps (watchers s w), newDeps := []\<rparr>"
  have w1: "watchers s1 = watchers s" by (simp add: s1_def fold_removeSub_frame)
  have "cleanupDeps w s = s1\<lparr>watchers := (watchers s1)(w := wr')\<rparr>"
    by (simp add: cleanupDeps_def Let_def s1_def wr'_def)
  moreover have "score (s1\<lparr>watchers := (watchers s1)(w := wr')\<rparr>) = score s1"
    by (rule score_watchers_upd) (simp add: w1 wr'_def wcore_def)
  moreover have "score s1 = score s" by (simp add: s1_def)
  ultimately show ?thesis by simp
qed

lemma score_Watcher_get [simp]: "score (snd (Watcher_get w ds out ts s)) = score s"
  by (simp add: Watcher_get_def Let_def)

lemma events_fold_depend [simp]: "events (fold depend ds s) = events s"
  by (induction ds arbitrary: s)
     (auto simp: depend_def addDep_def addSub_def Let_def split: option.splits)

lemma events_cleanupDeps [simp]: "events (cleanupDeps w s) = events s"
  by (simp add: cleanupDeps_def Let_def fold_removeSub_frame)

lemma events_Watcher_get:
  "events (snd (Watcher_get w ds out ts s)) =
     events s @ [GetterCalled w] @
       (if out = Throws \<and> user (watchers s w) then [HandleError ''getter''] else [])"
  by (simp add: Watcher_get_def Let_def popTarget_def pushTarget_def emit_def)

lemma fst_Watcher_get:
  "fst (Watcher_get w ds out ts s) =
     (if out = Throws \<and> user (watchers s w) then Returns Undefined else out)"
  by (simp add: Watcher_get_def Let_def)

lemma score_fold_emit [simp]: "score (fold (\<lambda>d. emit (f d)) ds s) = score s"
  by (induction ds arbitrary: s) simp_all

lemma events_fold_emit [simp]:
  "events (fold (\<lambda>d. emit (f d)) ds s) = events s @ map f ds"
  by (induction ds arbitrary: s) (simp_all add: emit_def)

lemma watchers_fold_emit [simp]: "watchers (fold (\<lambda>d. emit (f d)) ds s) = watchers s"
  by (induction ds arbitrary: s) simp_all


lemma get_result:
  "fst (get w s) =
     (if snd (getter (watchers s w) (vals s)) = Throws \<and> user (watchers s w)
      then Returns Undefined else snd (getter (watchers s w) (vals s)))"
  by (simp add: get_def Let_def fst_Watcher_get split: prod.splits)

lemma get_getter_calls:
  "getter_calls (snd (get w s)) x = getter_calls s x + (if x = w then 1 else 0)"
  by (auto simp: get_def Let_def getter_calls_def events_Watcher_get count_list_0_iff
      split: prod.splits)

section \<open>Lazy watchers\<close>

lemma score_Watcher_depend [simp]: "score (Watcher_depend w s) = score s"
  by (simp add: Watcher_depend_def)

lemma events_Watcher_depend [simp]: "events (Watcher_depend w s) = events s"
  by (simp add: Watcher_depend_def)

lemma getter_calls_events: "events s' = events s \<Longrightarrow> getter_calls s' x = getter_calls s x"
  by (simp add: getter_calls_def)

lemma update_lazy:
  assumes "lazy (watchers s w)"
  shows "update w s = (Normal, (emit (UpdateCalled w) s)
            \<lparr>watchers := (watchers s)(w := (watchers s w)\<lparr>dirty := True\<rparr>)\<rparr>)"
  using assms by (simp add: update_def Let_def)

lemma computedGetter_clean:
  assumes "\<not> dirty (watchers s w)"
  shows "fst (computedGetter w s) = Returns (wvalue (watchers s w))"
    and "getter_calls (snd (computedGetter w s)) x = getter_calls s x"
    and "\<not> dirty (watchers (snd (computedGetter w s)) w)"
    and "wvalue (watchers (snd (computedGetter w s)) w) = wvalue (watchers s w)"
  using assms score_wfields[OF score_Watcher_depend, of w s w]
  by (auto simp: computedGetter_def Let_def getter_calls_def)

lemma computedGetter_dirty:
  assumes "dirty (watchers s w)" "snd (getter (watchers s w) (vals s)) = Returns v"
  shows "fst (computedGetter w s) = Returns v"
    and "getter_calls (snd (computedGetter w s)) x = getter_calls s x + (if x = w then 1 else 0)"
    and "\<not> dirty (watchers (snd (computedGetter w s)) w)"
    and "wvalue (watchers (snd (computedGetter w s)) w) = v"
proof -
  obtain r s1 where g: "get w s = (r, s1)" by (cases "get w s")
  have r: "r = Returns v" using get_result[of w s] g assms(2) by simp
  define s2 where "s2 = s1\<lparr>watchers := (watchers s1)
                       (w := (watchers s1 w)\<lparr>wvalue := v, dirty := False\<rparr>)\<rparr>"
  have ev: "evaluate w s = (Normal, s2)" by (simp add: evaluate_def g r s2_def)
  have gc: "getter_calls s2 x = getter_calls s x + (if x = w then 1 else 0)"
    using get_getter_calls[of w s x] g by (simp add: s2_def getter_calls_def)
  define s3 where "s3 = (if target s2 \<noteq> None then Watcher_depend w s2 else s2)"
  have cg: "computedGetter w s = (Returns (wvalue (watchers s3 w)), s3)"
    using assms(1) by (simp add: computedGetter_def ev s3_def Let_def)
  have sc: "score s3 = score s2" by (simp add: s3_def)
  have e3: "events s3 = events s2" by (simp add: s3_def)
  have wv: "wvalue (watchers s3 w) = v" "\<not> dirty (watchers s3 w)"
    using score_wfields[OF sc, of w] by (simp_all add: s2_def)
  show "fst (computedGetter w s) = Returns v" by (simp add: cg wv)
  show "getter_calls (snd (computedGetter w s)) x = getter_calls s x + (if x = w then 1 else 0)"
    using gc getter_calls_events[OF e3] by (simp add: cg)
  show "\<not> dirty (watchers (snd (computedGetter w s)) w)" by (simp add: cg wv)
  show "wvalue (watchers (snd (computedGetter w s)) w) = v" by (simp add: cg wv)
qed

text \<open>
  Claim C8. A lazy watcher starts dirty. \<open>update\<close> on it sets \<open>dirty\<close> and nothing
  else: the queue, \<open>has\<close>, the \<open>nextTick\<close> callbacks and timers are untouched, the getter
  is not invoked and the cached value stays. Reading the computed property invokes the
  getter once if the watcher is dirty and not at all otherwise, and leaves it clean; a
  second read right after the first invokes the getter no more and returns the same
  value.
\<close>

theorem lazy_watcher_caches:
  assumes "lazy (watchers s w)" and "snd (getter (watchers s w) (vals s)) = Returns v"
  shows "dirty (new_watcher dp us True sy g) \<and>
         fst (update w s) = Normal \<and>
         dirty (watchers (snd (update w s)) w) \<and>
         queue (snd (update w s)) = queue s \<and> has (snd (update w s)) = has s \<and>
         callbacks (snd (update w s)) = callbacks s \<and> timers (snd (update w s)) = timers s \<and>
         getter_calls (snd (update w s)) w = getter_calls s w \<and>
         wvalue (watchers (snd (update w s)) w) = wvalue (watchers s w) \<and>
         (let s1 = snd (computedGetter w s); s2 = snd (computedGetter w s1) in
            getter_calls s1 w = getter_calls s w + (if dirty (watchers s w) then 1 else 0) \<and>
            \<not> dirty (watchers s1 w) \<and>
            (dirty (watchers s w) \<longrightarrow> fst (computedGetter w s) = Returns v) \<and>
            getter_calls s2 w = getter_calls s1 w \<and>
            fst (computedGetter w s1) = fst (computedGetter w s))"
proof -
  have u: "update w s = (Normal, (emit (UpdateCalled w) s)
            \<lparr>watchers := (watchers s)(w := (watchers s w)\<lparr>dirty := True\<rparr>)\<rparr>)"
    by (rule update_lazy[OF assms(1)])
  have upd: "fst (update w s) = Normal \<and>
         dirty (watchers (snd (update w s)) w) \<and>
         queue (snd (update w s)) = queue s \<and> has (snd (update w s)) = has s \<and>
         callbacks (snd (update w s)) = callbacks s \<and> timers (snd (update w s)) = timers s \<and>
         getter_calls (snd (update w s)) w = getter_calls s w \<and>
         wvalue (watchers (snd (update w s)) w) = wvalue (watchers s w)"
    by (simp add: u emit_def getter_calls_def)
  define s1 where "s1 = snd (computedGetter w s)"
  have first: "getter_calls s1 w = getter_calls s w + (if dirty (watchers s w) then 1 else 0)"
    "\<not> dirty (watchers s1 w)"
    "dirty (watchers s w) \<longrightarrow> fst (computedGetter w s) = Returns v"
    "fst (computedGetter w s) = Returns (wvalue (watchers s1 w))"
    using computedGetter_dirty[OF _ assms(2)] computedGetter_clean[of s w]
    by (cases "dirty (watchers s w)"; simp add: s1_def)+
  have second: "getter_calls (snd (computedGetter w s1)) w = getter_calls s1 w"
    "fst (computedGetter w s1) = Returns (wvalue (watchers s1 w))"
    using computedGetter_clean[OF first(2)] by simp_all
  show ?thesis
    using upd first second
    by (simp add: Let_def new_watcher_def s1_def[symmetric])
qed

theorem lazy_watcher_caches_witness:
  "lazy (watchers s_computed 7) \<and>
   snd (getter (watchers s_computed 7) (vals s_computed)) = Returns (Num 5) \<and>
   dirty (watchers s_computed 7) \<and>
   (let s1 = snd (computedGetter 7 s_computed); s2 = snd (computedGetter 7 s1) in
      getter_calls s_computed 7 = 0 \<and> getter_calls s1 7 = 1 \<and> getter_calls s2 7 = 1 \<and>
      fst (computedGetter 7 s_computed) = Returns (Num 5) \<and>
      fst (computedGetter 7 s1) = Returns (Num 5))"
proof -
  have a: "lazy (watchers s_computed 7)"
    and b: "snd (getter (watchers s_computed 7) (vals s_computed)) = Returns (Num 5)"
    and c: "dirty (watchers s_computed 7)"
    and d: "getter_calls s_computed 7 = 0"
    by (simp_all add: s_computed_def init_state_def new_watcher_def sum_getter_def vals_def
        getter_calls_def)
  show ?thesis
    using lazy_watcher_caches[OF a b, of False False False sum_getter] a b c d
    by (simp add: Let_def)
qed

section \<open>Order of the runs of a flush\<close>

lemma splice_pos_props:
  assumes "idx < j0" "j0 \<le> length q"
  shows "idx < splice_pos q idx x j0 \<and> splice_pos q idx x j0 \<le> j0 \<and>
         (\<forall>i. splice_pos q idx x j0 \<le> i \<and> i < j0 \<longrightarrow> x < q ! i) \<and>
         (splice_pos q idx x j0 = Suc idx \<or> q ! (splice_pos q idx x j0 - 1) \<le> x)"
  using assms
proof (induction j0)
  case 0
  then show ?case by simp
next
  case (Suc j)
  show ?case
  proof (cases "j > idx \<and> q ! j > x")
    case True
    with Suc have IH: "idx < splice_pos q idx x j \<and> splice_pos q idx x j \<le> j \<and>
         (\<forall>i. splice_pos q idx x j \<le> i \<and> i < j \<longrightarrow> x < q ! i) \<and>
         (splice_pos q idx x j = Suc idx \<or> q ! (splice_pos q idx x j - 1) \<le> x)"
      by simp
    have eq: "splice_pos q idx x (Suc j) = splice_pos q idx x j" using True by simp
    show ?thesis unfolding eq using IH True
      by (auto simp: less_Suc_eq)
  next
    case False
    then have eq: "splice_pos q idx x (Suc j) = Suc j" by auto
    show ?thesis unfolding eq using False Suc.prems
      by (auto simp: not_less less_Suc_eq)
  qed
qed

lemma sorted_splice:
  assumes "sorted q" "idx < length q" "q ! idx \<le> x"
  defines "j \<equiv> splice_pos q idx x (length q)"
  shows "sorted (take j q @ [x] @ drop j q)"
    and "take (Suc idx) (take j q @ [x] @ drop j q) = take (Suc idx) q"
    and "idx < j" and "j \<le> length q"
proof -
  from splice_pos_props[OF assms(2) order_refl, of x]
  have p: "idx < j" "j \<le> length q" "\<forall>i. j \<le> i \<and> i < length q \<longrightarrow> x < q ! i"
    "j = Suc idx \<or> q ! (j - 1) \<le> x"
    by (simp_all add: j_def)
  show "idx < j" "j \<le> length q" by fact+
  have le: "\<forall>y \<in> set (take j q). y \<le> x"
  proof
    fix y assume "y \<in> set (take j q)"
    then obtain i where i: "i < j" "y = q ! i" using p(2)
      by (auto simp: in_set_conv_nth)
    from p(4) show "y \<le> x"
    proof
      assume "j = Suc idx"
      with i have "i \<le> idx" by simp
      with assms(1,2) have "q ! i \<le> q ! idx" by (simp add: sorted_nth_mono)
      with assms(3) i show ?thesis by simp
    next
      assume a: "q ! (j - 1) \<le> x"
      from i p(2) have "q ! i \<le> q ! (j - 1)"
        using assms(1) by (intro sorted_nth_mono) auto
      with a i show ?thesis by simp
    qed
  qed
  have gt: "\<forall>y \<in> set (drop j q). x < y"
  proof
    fix y assume "y \<in> set (drop j q)"
    then obtain i where "i < length q - j" "y = q ! (j + i)" using p(2)
      by (auto simp: in_set_conv_nth)
    with p(3) show "x < y" by simp
  qed
  have s1: "sorted (take j q)" and s2: "sorted (drop j q)"
    using assms(1) by (simp_all add: sorted_wrt_take sorted_wrt_drop)
  have "\<forall>a \<in> set (take j q). \<forall>b \<in> set (drop j q). a \<le> b"
    using le gt by fastforce
  with s1 s2 le gt show "sorted (take j q @ [x] @ drop j q)"
    by (auto simp: sorted_append less_imp_le)
  show "take (Suc idx) (take j q @ [x] @ drop j q) = take (Suc idx) q"
    using p(1,2) by (simp add: min_def)
qed

lemma ran_emit: "ran (emit e s) = ran s @ (case e of Ran w \<Rightarrow> [w] | _ \<Rightarrow> [])"
  by (simp add: ran_def emit_def)

lemma events_nextTick [simp]: "events (nextTick cb s) = events s"
  by (simp add: nextTick_def Let_def)

lemma events_queueWatcher [simp]: "events (queueWatcher x s) = events s"
  by (simp add: queueWatcher_def Let_def)

lemma events_fold_queueWatcher [simp]: "events (fold queueWatcher xs s) = events s"
  by (induction xs arbitrary: s) simp_all

lemma ran_cong: "events s' = events s \<Longrightarrow> ran s' = ran s"
  by (simp add: ran_def)

lemma queue_nextTick [simp]:
  "queue (nextTick cb s) = queue s" "index (nextTick cb s) = index s"
  "flushing (nextTick cb s) = flushing s" "production (nextTick cb s) = production s"
  "has (nextTick cb s) = has s" "circular (nextTick cb s) = circular s"
  by (simp_all add: nextTick_def Let_def)

lemma queueWatcher_run_inv:
  assumes "run_inv pre s" "queue s ! index s \<le> x"
  shows "run_inv pre (queueWatcher x s) \<and> index (queueWatcher x s) = index s \<and>
         queue (queueWatcher x s) ! index s = queue s ! index s \<and>
         production (queueWatcher x s) = production s \<and>
         circular (queueWatcher x s) = circular s"
proof (cases "x \<in> has s")
  case True
  then show ?thesis using assms by (simp add: queueWatcher_def)
next
  case False
  from assms have q: "sorted (queue s)" "index s < length (queue s)" "flushing s"
    and r: "ran s = pre @ take (Suc (index s)) (queue s)"
    by (simp_all add: run_inv_def)
  define j where "j = splice_pos (queue s) (index s) x (length (queue s))"
  define q' where "q' = take j (queue s) @ [x] @ drop j (queue s)"
  note sp = sorted_splice[OF q(1,2) assms(2), folded j_def, folded q'_def]
  have qq: "queue (queueWatcher x s) = q'" "index (queueWatcher x s) = index s"
    "flushing (queueWatcher x s)" "production (queueWatcher x s) = production s"
    "circular (queueWatcher x s) = circular s"
    using False q(3) by (simp_all add: queueWatcher_def Let_def j_def q'_def)
  have nth: "q' ! index s = queue s ! index s"
    using sp(3,4) by (simp add: q'_def nth_append)
  have len: "index s < length q'" using q(2) by (simp add: q'_def)
  show ?thesis
    using sp(1,2) r nth len qq ran_cong[of "queueWatcher x s" s]
    by (simp add: run_inv_def)
qed

lemma fold_queueWatcher_run_inv:
  assumes "run_inv pre s" "\<forall>x \<in> set xs. queue s ! index s \<le> x"
  shows "run_inv pre (fold queueWatcher xs s) \<and> index (fold queueWatcher xs s) = index s \<and>
         production (fold queueWatcher xs s) = production s"
  using assms
proof (induction xs arbitrary: s)
  case Nil
  then show ?case by simp
next
  case (Cons x xs)
  from queueWatcher_run_inv[OF Cons.prems(1), of x] Cons.prems(2)
  have 1: "run_inv pre (queueWatcher x s)" "index (queueWatcher x s) = index s"
    "queue (queueWatcher x s) ! index s = queue s ! index s"
    "production (queueWatcher x s) = production s"
    by simp_all
  from Cons.IH[OF 1(1)] Cons.prems(2) 1 show ?case by simp
qed

lemma run_inv_done:
  "run_inv pre s \<Longrightarrow> \<exists>k \<le> length (queue s). ran s = pre @ take k (queue s) \<and> sorted (queue s)"
  by (auto simp: run_inv_def intro!: exI[of _ "Suc (index s)"])

lemma flush_loop_ascending:
  assumes "ascending beh" "flush_inv pre s"
  shows "\<exists>k \<le> length (queue (snd (flush_loop (user_run beh) n s))).
           ran (snd (flush_loop (user_run beh) n s)) =
             pre @ take k (queue (snd (flush_loop (user_run beh) n s))) \<and>
           sorted (queue (snd (flush_loop (user_run beh) n s)))"
  using assms(2)
proof (induction n arbitrary: s)
  case 0
  then show ?case by (auto simp: flush_inv_def)
next
  case (Suc n)
  show ?case
  proof (cases "index s < length (queue s)")
    case False
    with Suc.prems show ?thesis by (auto simp: flush_inv_def)
  next
    case True
    define w where "w = queue s ! index s"
    define s1 where "s1 = emit (Ran w) (s\<lparr>has := has s - {w}\<rparr>)"
    define s2 where "s2 = fold queueWatcher (beh (ran s1) w) s1"
    have i1: "run_inv pre s1"
      using Suc.prems True
      by (simp add: run_inv_def flush_inv_def s1_def ran_emit emit_def w_def
          take_Suc_conv_app_nth ran_def)
    have qi: "queue s1 ! index s1 = w" by (simp add: s1_def emit_def w_def)
    have asc: "\<forall>x \<in> set (beh (ran s1) w). queue s1 ! index s1 \<le> x"
      using assms(1) qi by (simp add: ascending_def)
    from fold_queueWatcher_run_inv[OF i1 asc]
    have i2: "run_inv pre s2" "index s2 = index s" 
      by (simp_all add: s2_def s1_def emit_def)
    have ur: "user_run beh w s1 = (Normal, s2)" by (simp add: user_run_def s2_def)
    define s3 where "s3 = s2\<lparr>circular := (circular s2)(w := circular s2 w + 1)\<rparr>"
    have i3: "run_inv pre s3" using i2 by (simp add: run_inv_def s3_def ran_def)
    have f2: "flush_inv pre (s2\<lparr>index := index s2 + 1\<rparr>)"
      using i2 by (simp add: run_inv_def flush_inv_def ran_def)
    have f3: "flush_inv pre (s3\<lparr>index := index s3 + 1\<rparr>)"
      using i3 by (simp add: run_inv_def flush_inv_def ran_def)
    have w3: "run_inv pre (emit loop_warning s3)"
      using i3 by (simp add: run_inv_def emit_def ran_def loop_warning_def)
    have fl: "flush_loop (user_run beh) (Suc n) s =
        (if \<not> production s2 \<and> w \<in> has s2 then
           (if circular s3 w > MAX_UPDATE_COUNT then (Some Normal, emit loop_warning s3)
            else flush_loop (user_run beh) n (s3\<lparr>index := index s3 + 1\<rparr>))
         else flush_loop (user_run beh) n (s2\<lparr>index := index s2 + 1\<rparr>))"
      using True ur by (simp add: Let_def w_def s1_def s3_def)
    show ?thesis
      unfolding fl using Suc.IH[OF f2] Suc.IH[OF f3] run_inv_done[OF w3]
      by simp
  qed
qed

text \<open>
  Claim C3, amended. In every flush, at every moment, the watchers run so far are in
  non-decreasing id order, provided that every watcher enqueued while the flush is
  running has an id not below that of the watcher running at that moment; such a watcher
  is spliced into the part of the queue not yet run, which stays sorted.
\<close>

theorem flush_runs_ascending:
  assumes "ascending beh"
  shows "\<exists>ord. ran (snd (flush_loop (user_run beh) n (flush_start s))) = ran s @ ord \<and>
               sorted ord"
proof -
  have "flush_inv (ran s) (flush_start s)"
    by (simp add: flush_inv_def flush_start_def ran_def)
  from flush_loop_ascending[OF assms this, of n]
  show ?thesis by (auto simp: sorted_wrt_take)
qed

text \<open>
  Claim C3, as stated, fails for a watcher enqueued during the flush with an id below the
  running one: with watchers 1 and 2 queued and the run of 2 enqueueing 1 again, the
  flush runs 1, 2, 1.
\<close>

theorem flush_runs_out_of_order:
  "queue s_two_queued = [1, 2] \<and>
   flushSchedulerQueue (user_run beh_back) 5 s_two_queued \<noteq> None \<and>
   ran (snd (the (flushSchedulerQueue (user_run beh_back) 5 s_two_queued))) = [1, 2, 1] \<and>
   \<not> sorted (ran (snd (the (flushSchedulerQueue (user_run beh_back) 5 s_two_queued))))"
  by code_simp

theorem flush_runs_ascending_witness:
  "ascending beh_fwd \<and> ran s_two_queued = [] \<and>
   ran (snd (flush_loop (user_run beh_fwd) 5 (flush_start s_two_queued))) = [1, 2, 3] \<and>
   sorted (ran (snd (flush_loop (user_run beh_fwd) 5 (flush_start s_two_queued))))"
proof -
  have a: "ascending beh_fwd" by (simp add: ascending_def beh_fwd_def)
  have r: "ran s_two_queued = []"
    "ran (snd (flush_loop (user_run beh_fwd) 5 (flush_start s_two_queued))) = [1, 2, 3]"
    by code_simp+
  from flush_runs_ascending[OF a, of 5 s_two_queued] a r show ?thesis
    by auto
qed

section \<open>The guard against circular updates\<close>

lemma events_user_run [simp]: "events (snd (user_run beh w s)) = events s"
  by (simp add: user_run_def)

lemma queueWatcher_frame [simp]:
  "production (queueWatcher x s) = production s"
  "circular (queueWatcher x s) = circular s"
  "index (queueWatcher x s) = index s"
  by (simp_all add: queueWatcher_def Let_def)

lemma queueWatcher_length: "length (queue s) \<le> length (queue (queueWatcher x s))"
  by (simp add: queueWatcher_def Let_def min_def)

lemma fold_queueWatcher_frame [simp]:
  "production (fold queueWatcher xs s) = production s"
  "circular (fold queueWatcher xs s) = circular s"
  "index (fold queueWatcher xs s) = index s"
  by (induction xs arbitrary: s) simp_all

lemma fold_queueWatcher_length:
  "length (queue s) \<le> length (queue (fold queueWatcher xs s))"
proof (induction xs arbitrary: s)
  case Nil
  show ?case by simp
next
  case (Cons x xs)
  from Cons.IH[of "queueWatcher x s"] queueWatcher_length[of s x] show ?case by simp
qed

lemma fold_queueWatcher_nth:
  "i \<le> index s \<Longrightarrow> i < length (queue s) \<Longrightarrow> flushing s \<Longrightarrow>
   queue (fold queueWatcher xs s) ! i = queue s ! i \<and> flushing (fold queueWatcher xs s)"
proof (induction xs arbitrary: s)
  case Nil
  then show ?case by simp
next
  case (Cons x xs)
  define j where "j = splice_pos (queue s) (index s) x (length (queue s))"
  have "index s < length (queue s) \<Longrightarrow> index s < j \<and> j \<le> length (queue s)"
    using splice_pos_props[of "index s" "length (queue s)" "queue s" x] by (simp add: j_def)
  moreover have "\<not> index s < length (queue s) \<Longrightarrow> j = length (queue s)"
    by (cases "length (queue s)") (simp_all add: j_def)
  ultimately have j: "i < j" "j \<le> length (queue s)" using Cons.prems
    by (cases "index s < length (queue s)"; simp)+
  have 1: "queue (queueWatcher x s) ! i = queue s ! i" "flushing (queueWatcher x s)"
    "index (queueWatcher x s) = index s" "i < length (queue (queueWatcher x s))"
    using Cons.prems j by (auto simp: queueWatcher_def Let_def j_def[symmetric] nth_append)
  from Cons.IH[of "queueWatcher x s"] 1 Cons.prems show ?case by simp
qed

lemma emit_frame [simp]:
  "queue (emit e s) = queue s" "has (emit e s) = has s" "index (emit e s) = index s"
  "flushing (emit e s) = flushing s" "production (emit e s) = production s"
  "circular (emit e s) = circular s"
  by (simp_all add: emit_def)

lemma ran_callHooks [simp]:
  "ran (callUpdatedHooks q s) = ran s" "queue (callUpdatedHooks q s) = queue s"
  "has (callUpdatedHooks q s) = has s"
  by (induction q arbitrary: s rule: rev_induct)
     (simp_all add: callUpdatedHooks_def callHook_def popTarget_def pushTarget_def emit_def
      ran_def)

lemma ran_callActivatedHooks [simp]:
  "ran (callActivatedHooks q s) = ran s" "queue (callActivatedHooks q s) = queue s"
  "has (callActivatedHooks q s) = has s"
  by (induction q arbitrary: s) (simp_all add: callActivatedHooks_def emit_def ran_def)

lemma flushSchedulerQueue_finished:
  assumes "fst (flush_loop runW n (flush_start s)) = Some Normal"
  shows "flushSchedulerQueue runW n s \<noteq> None \<and>
         fst (the (flushSchedulerQueue runW n s)) = Normal \<and>
         ran (snd (the (flushSchedulerQueue runW n s))) =
           ran (snd (flush_loop runW n (flush_start s))) \<and>
         queue (snd (the (flushSchedulerQueue runW n s))) = [] \<and>
         has (snd (the (flushSchedulerQueue runW n s))) = {}"
proof -
  obtain s1 where f: "flush_loop runW n (flush_start s) = (Some Normal, s1)"
    using assms by (cases "flush_loop runW n (flush_start s)") auto
  have "ran (resetSchedulerState s1) = ran s1" "queue (resetSchedulerState s1) = []"
    "has (resetSchedulerState s1) = {}"
    by (simp_all add: resetSchedulerState_def ran_def)
  then show ?thesis
    by (simp add: flushSchedulerQueue_def f Let_def ran_emit)
qed

lemma requeues_snoc:
  "requeues beh pre (h @ [x]) w =
     requeues beh pre h w + (if x = w \<and> w \<in> set (beh (pre @ h @ [x]) w) then 1 else 0)"
  by (induction h arbitrary: pre) auto

lemma has_queueWatcher: "has (queueWatcher x s) = insert x (has s)"
  by (auto simp: queueWatcher_def Let_def nextTick_def)

lemma has_fold_queueWatcher: "has (fold queueWatcher xs s) = has s \<union> set xs"
  by (induction xs arbitrary: s) (auto simp: has_queueWatcher)

lemma flush_loop_guard:
  assumes "ran s = pre @ h" "\<not> production s" "\<forall>w. circular s w = requeues beh pre h w"
    "\<forall>w. circular s w \<le> MAX_UPDATE_COUNT"
  shows "\<exists>h1 es. ran (snd (flush_loop (user_run beh) n s)) = pre @ h1 \<and>
          events (snd (flush_loop (user_run beh) n s)) = events s @ es \<and>
          (if \<exists>w. MAX_UPDATE_COUNT < requeues beh pre h1 w
           then fst (flush_loop (user_run beh) n s) = Some Normal \<and>
                es \<noteq> [] \<and> last es = loop_warning \<and>
                h1 \<noteq> [] \<and> requeues beh pre h1 (last h1) = MAX_UPDATE_COUNT + 1 \<and>
                (\<forall>w. w \<noteq> last h1 \<longrightarrow> requeues beh pre h1 w \<le> MAX_UPDATE_COUNT)
           else loop_warning \<notin> set es)"
  using assms
proof (induction n arbitrary: s h)
  case 0
  have "\<not> (\<exists>w. MAX_UPDATE_COUNT < requeues beh pre h w)"
    using 0(3,4) by (auto simp: not_less)
  with 0 show ?case by (intro exI[of _ h] exI[of _ "[]"]) simp
next
  case (Suc n)
  have ne: "\<not> (\<exists>w. MAX_UPDATE_COUNT < requeues beh pre h w)"
    using Suc.prems(3,4) by (auto simp: not_less)
  show ?case
  proof (cases "index s < length (queue s)")
    case False
    with Suc.prems ne show ?thesis by (intro exI[of _ h] exI[of _ "[]"]) simp
  next
    case True
    define w where "w = queue s ! index s"
    define s1 where "s1 = emit (Ran w) (s\<lparr>has := has s - {w}\<rparr>)"
    define s2 where "s2 = fold queueWatcher (beh (ran s1) w) s1"
    define s3 where "s3 = s2\<lparr>circular := (circular s2)(w := circular s2 w + 1)\<rparr>"
    have ur: "user_run beh w s1 = (Normal, s2)" by (simp add: user_run_def s2_def)
    have fl: "flush_loop (user_run beh) (Suc n) s =
        (if \<not> production s2 \<and> w \<in> has s2 then
           (if circular s3 w > MAX_UPDATE_COUNT then (Some Normal, emit loop_warning s3)
            else flush_loop (user_run beh) n (s3\<lparr>index := index s3 + 1\<rparr>))
         else flush_loop (user_run beh) n (s2\<lparr>index := index s2 + 1\<rparr>))"
      using True ur by (simp add: Let_def w_def s1_def s3_def)
    have r1: "ran s1 = pre @ h @ [w]"
      using Suc.prems(1) by (simp add: s1_def ran_def emit_def)
    have e2: "events s2 = events s @ [Ran w]" by (simp add: s2_def s1_def emit_def)
    have r2: "ran s2 = pre @ (h @ [w])" using r1 ran_cong[of s2 s1] by (simp add: s2_def)
    have p2: "\<not> production s2" "circular s2 = circular s"
      using Suc.prems(2) by (simp_all add: s2_def s1_def)
    have h2: "w \<in> has s2 \<longleftrightarrow> w \<in> set (beh (pre @ h @ [w]) w)"
      by (simp add: s2_def has_fold_queueWatcher r1) (simp add: s1_def)
    have rq: "requeues beh pre (h @ [w]) x =
        circular s x + (if w = x \<and> w \<in> has s2 then 1 else 0)" for x
      using Suc.prems(3) h2 by (auto simp: requeues_snoc)
    have cont: ?thesis
      if f: "flush_loop (user_run beh) (Suc n) s = flush_loop (user_run beh) n t"
        and t: "ran t = pre @ h @ [w]" "\<not> production t"
          "\<forall>x. circular t x = requeues beh pre (h @ [w]) x"
          "\<forall>x. circular t x \<le> MAX_UPDATE_COUNT" "events t = events s @ [Ran w]" for t
    proof -
      define r where "r = flush_loop (user_run beh) n t"
      from Suc.IH[of t "h @ [w]"] t
      obtain h1 es where 1: "ran (snd r) = pre @ h1" and 2: "events (snd r) = events t @ es"
        and 3: "if \<exists>w. MAX_UPDATE_COUNT < requeues beh pre h1 w
           then fst r = Some Normal \<and> es \<noteq> [] \<and> last es = loop_warning \<and>
                h1 \<noteq> [] \<and> requeues beh pre h1 (last h1) = MAX_UPDATE_COUNT + 1 \<and>
                (\<forall>w. w \<noteq> last h1 \<longrightarrow> requeues beh pre h1 w \<le> MAX_UPDATE_COUNT)
           else loop_warning \<notin> set es"
        unfolding r_def by auto
      have ev: "events (snd r) = events s @ (Ran w # es)" using 2 t(5) by simp
      have cs: "if \<exists>w. MAX_UPDATE_COUNT < requeues beh pre h1 w
           then fst r = Some Normal \<and> Ran w # es \<noteq> [] \<and> last (Ran w # es) = loop_warning \<and>
                h1 \<noteq> [] \<and> requeues beh pre h1 (last h1) = MAX_UPDATE_COUNT + 1 \<and>
                (\<forall>w. w \<noteq> last h1 \<longrightarrow> requeues beh pre h1 w \<le> MAX_UPDATE_COUNT)
           else loop_warning \<notin> set (Ran w # es)"
        using 3 by (cases "\<exists>w. MAX_UPDATE_COUNT < requeues beh pre h1 w")
          (simp_all add: loop_warning_def)
      show ?thesis
        unfolding f r_def[symmetric] using 1 ev cs by blast
    qed
    show ?thesis
    proof (cases "w \<in> has s2")
      case False
      show ?thesis
      proof (rule cont)
        show "flush_loop (user_run beh) (Suc n) s =
              flush_loop (user_run beh) n (s2\<lparr>index := index s2 + 1\<rparr>)"
          using False fl by auto
        show "ran (s2\<lparr>index := index s2 + 1\<rparr>) = pre @ h @ [w]" using r2 by (simp add: ran_def)
        show "\<not> production (s2\<lparr>index := index s2 + 1\<rparr>)" using p2 by simp
        show "\<forall>x. circular (s2\<lparr>index := index s2 + 1\<rparr>) x = requeues beh pre (h @ [w]) x"
          using rq False p2 by simp
        show "\<forall>x. circular (s2\<lparr>index := index s2 + 1\<rparr>) x \<le> MAX_UPDATE_COUNT"
          using Suc.prems(4) p2 by simp
        show "events (s2\<lparr>index := index s2 + 1\<rparr>) = events s @ [Ran w]" using e2 by simp
      qed
    next
      case c: True
      show ?thesis
      proof (cases "circular s3 w > MAX_UPDATE_COUNT")
        case True
        have f: "flush_loop (user_run beh) (Suc n) s = (Some Normal, emit loop_warning s3)"
          using c True fl p2 by simp
        have cw: "circular s w = MAX_UPDATE_COUNT"
          using True Suc.prems(4)[rule_format, of w] p2 by (simp add: s3_def)
        have 1: "requeues beh pre (h @ [w]) w = MAX_UPDATE_COUNT + 1"
          using rq[of w] c cw by simp
        have 2: "\<forall>x. x \<noteq> w \<longrightarrow> requeues beh pre (h @ [w]) x \<le> MAX_UPDATE_COUNT"
          using rq Suc.prems(4) by auto
        have 3: "ran (emit loop_warning s3) = pre @ (h @ [w])"
          using r2 by (simp add: loop_warning_def s3_def ran_def emit_def)
        have 4: "\<exists>x. MAX_UPDATE_COUNT < requeues beh pre (h @ [w]) x"
          using 1 by (intro exI[of _ w]) simp
        have 5: "events (emit loop_warning s3) = events s @ [Ran w, loop_warning]"
          using e2 by (simp add: emit_def s3_def)
        show ?thesis
          unfolding f using 1 2 3 4 5
          by (intro exI[of _ "h @ [w]"] exI[of _ "[Ran w, loop_warning]"]) simp
      next
        case False
        show ?thesis
        proof (rule cont)
          show "flush_loop (user_run beh) (Suc n) s =
              flush_loop (user_run beh) n (s3\<lparr>index := index s3 + 1\<rparr>)"
            using c False fl p2 by simp
          show "ran (s3\<lparr>index := index s3 + 1\<rparr>) = pre @ h @ [w]"
            using r2 by (simp add: ran_def s3_def)
          show "\<not> production (s3\<lparr>index := index s3 + 1\<rparr>)" using p2 by (simp add: s3_def)
          show "\<forall>x. circular (s3\<lparr>index := index s3 + 1\<rparr>) x = requeues beh pre (h @ [w]) x"
            using rq c p2 by (simp add: s3_def)
          show "\<forall>x. circular (s3\<lparr>index := index s3 + 1\<rparr>) x \<le> MAX_UPDATE_COUNT"
            using Suc.prems(4) p2 False by (simp add: s3_def not_less)
          show "events (s3\<lparr>index := index s3 + 1\<rparr>) = events s @ [Ran w]"
            using e2 by (simp add: s3_def)
        qed
      qed
    qed
  qed
qed

text \<open>
  Claim C4, amended. In a development build, in a flush that starts with the counters
  of the guard at zero, no watcher comes out of its own run enqueued again more than
  \<open>MAX_UPDATE_COUNT + 1\<close> times. When one does so more than \<open>MAX_UPDATE_COUNT\<close> times,
  the loop is left at once: the diagnostic is the last event of the loop, the offender
  is the last watcher run, \<open>flushSchedulerQueue\<close> returns without running anything
  more, and the queue and \<open>has\<close> are emptied, which drops what was pending. Where no
  watcher does so, the flush reports no diagnostic. (\<open>h\<close> are the runs and \<open>es\<close>
  the events of this flush.)
\<close>

theorem cycle_guard_ends_flush:
  assumes "\<not> production s" "circular s = (\<lambda>_. 0)"
  shows "let r = flush_loop (user_run beh) n (flush_start s);
             h = drop (length (ran s)) (ran (snd r));
             es = drop (length (events s)) (events (snd r)) in
           ran (snd r) = ran s @ h \<and> events (snd r) = events s @ es \<and>
           (\<forall>w. requeues beh (ran s) h w \<le> MAX_UPDATE_COUNT + 1) \<and>
           ((\<exists>w. MAX_UPDATE_COUNT < requeues beh (ran s) h w) \<longrightarrow>
              fst r = Some Normal \<and> es \<noteq> [] \<and> last es = loop_warning \<and>
              MAX_UPDATE_COUNT < requeues beh (ran s) h (last h) \<and>
              flushSchedulerQueue (user_run beh) n s \<noteq> None \<and>
              fst (the (flushSchedulerQueue (user_run beh) n s)) = Normal \<and>
              ran (snd (the (flushSchedulerQueue (user_run beh) n s))) = ran (snd r) \<and>
              queue (snd (the (flushSchedulerQueue (user_run beh) n s))) = [] \<and>
              has (snd (the (flushSchedulerQueue (user_run beh) n s))) = {}) \<and>
           (\<not> (\<exists>w. MAX_UPDATE_COUNT < requeues beh (ran s) h w) \<longrightarrow>
              loop_warning \<notin> set es)"
proof -
  define r where "r = flush_loop (user_run beh) n (flush_start s)"
  have "\<exists>h1 es. ran (snd (flush_loop (user_run beh) n (flush_start s))) = ran s @ h1 \<and>
          events (snd (flush_loop (user_run beh) n (flush_start s))) = events (flush_start s) @ es \<and>
          (if \<exists>w. MAX_UPDATE_COUNT < requeues beh (ran s) h1 w
           then fst (flush_loop (user_run beh) n (flush_start s)) = Some Normal \<and>
                es \<noteq> [] \<and> last es = loop_warning \<and>
                h1 \<noteq> [] \<and> requeues beh (ran s) h1 (last h1) = MAX_UPDATE_COUNT + 1 \<and>
                (\<forall>w. w \<noteq> last h1 \<longrightarrow> requeues beh (ran s) h1 w \<le> MAX_UPDATE_COUNT)
           else loop_warning \<notin> set es)"
  proof (rule flush_loop_guard[where h = "[]"])
    show "ran (flush_start s) = ran s @ []" by (simp add: flush_start_def ran_def)
    show "\<not> production (flush_start s)" using assms(1) by (simp add: flush_start_def)
    show "\<forall>w. circular (flush_start s) w = requeues beh (ran s) [] w"
      using assms(2) by (simp add: flush_start_def)
    show "\<forall>w. circular (flush_start s) w \<le> MAX_UPDATE_COUNT"
      using assms(2) by (simp add: flush_start_def)
  qed
  then obtain h1 es where h1: "ran (snd r) = ran s @ h1"
    and es: "events (snd r) = events s @ es"
    and c: "if \<exists>w. MAX_UPDATE_COUNT < requeues beh (ran s) h1 w
           then fst r = Some Normal \<and> es \<noteq> [] \<and> last es = loop_warning \<and>
                h1 \<noteq> [] \<and> requeues beh (ran s) h1 (last h1) = MAX_UPDATE_COUNT + 1 \<and>
                (\<forall>w. w \<noteq> last h1 \<longrightarrow> requeues beh (ran s) h1 w \<le> MAX_UPDATE_COUNT)
           else loop_warning \<notin> set es"
    unfolding r_def by (auto simp: flush_start_def)
  have d: "drop (length (ran s)) (ran (snd r)) = h1" using h1 by simp
  have d2: "drop (length (events s)) (events (snd r)) = es" using es by simp
  have b: "\<forall>w. requeues beh (ran s) h1 w \<le> MAX_UPDATE_COUNT + 1"
  proof (cases "\<exists>w. MAX_UPDATE_COUNT < requeues beh (ran s) h1 w")
    case True
    with c have "requeues beh (ran s) h1 (last h1) = MAX_UPDATE_COUNT + 1"
      "\<forall>w. w \<noteq> last h1 \<longrightarrow> requeues beh (ran s) h1 w \<le> MAX_UPDATE_COUNT" by simp_all
    then show ?thesis by (metis le_SucI Suc_eq_plus1 order_refl)
  next
    case False
    then show ?thesis by (auto simp: not_less intro: le_SucI)
  qed
  have f: "fst r = Some Normal \<Longrightarrow>
      flushSchedulerQueue (user_run beh) n s \<noteq> None \<and>
      fst (the (flushSchedulerQueue (user_run beh) n s)) = Normal \<and>
      ran (snd (the (flushSchedulerQueue (user_run beh) n s))) = ran (snd r) \<and>
      queue (snd (the (flushSchedulerQueue (user_run beh) n s))) = [] \<and>
      has (snd (the (flushSchedulerQueue (user_run beh) n s))) = {}"
    using flushSchedulerQueue_finished[of "user_run beh" n s] by (simp add: r_def)
  show ?thesis
    unfolding Let_def r_def[symmetric] d d2
    using h1 es b c f by (auto split: if_splits)
qed

lemma self_loop_run:
  "fst (flush_loop (user_run beh_self) 110 (flush_start s_two_queued)) = Some Normal \<and>
   ran (snd (flush_loop (user_run beh_self) 110 (flush_start s_two_queued))) = replicate 101 1 \<and>
   last (events (snd (flush_loop (user_run beh_self) 110 (flush_start s_two_queued)))) = loop_warning \<and>
   queue (snd (flush_loop (user_run beh_self) 110 (flush_start s_two_queued))) = replicate 102 1 @ [2]"
proof -
  have "case flush_loop (user_run beh_self) 110 (flush_start s_two_queued) of
          (c, s') \<Rightarrow> c = Some Normal \<and> ran s' = replicate 101 1 \<and>
                     last (events s') = loop_warning \<and> queue s' = replicate 102 1 @ [2]"
    by code_simp
  then show ?thesis
    by (cases "flush_loop (user_run beh_self) 110 (flush_start s_two_queued)") simp
qed

text \<open>
  Claim C4, as stated, fails: with watchers 1 and 2 queued and watcher 1 re-enqueueing
  itself in every run, the flush runs watcher 1 for 101 times, reports the diagnostic and
  ends; watcher 2 is never run and is dropped from the queue.
\<close>

theorem cycle_guard_drops_pending:
  "queue s_two_queued = [1, 2] \<and>
   flushSchedulerQueue (user_run beh_self) 110 s_two_queued \<noteq> None \<and>
   ran (snd (the (flushSchedulerQueue (user_run beh_self) 110 s_two_queued))) = replicate 101 1 \<and>
   2 \<notin> set (ran (snd (the (flushSchedulerQueue (user_run beh_self) 110 s_two_queued)))) \<and>
   queue (snd (the (flushSchedulerQueue (user_run beh_self) 110 s_two_queued))) = []"
proof -
  have q: "queue s_two_queued = [1, 2]" by code_simp
  from self_loop_run flushSchedulerQueue_finished[of "user_run beh_self" 110 s_two_queued] q
  show ?thesis by simp
qed

lemma requeues_self:
  "requeues beh_self [] (replicate 101 1) 1 = 101"
  by code_simp

theorem cycle_guard_ends_flush_witness:
  "\<not> production s_two_queued \<and> circular s_two_queued = (\<lambda>_. 0) \<and>
   MAX_UPDATE_COUNT < requeues beh_self (ran s_two_queued)
     (drop (length (ran s_two_queued))
        (ran (snd (flush_loop (user_run beh_self) 110 (flush_start s_two_queued))))) 1 \<and>
   last (events (snd (flush_loop (user_run beh_self) 110 (flush_start s_two_queued)))) = loop_warning \<and>
   ran (snd (the (flushSchedulerQueue (user_run beh_self) 110 s_two_queued))) = replicate 101 1 \<and>
   queue (snd (the (flushSchedulerQueue (user_run beh_self) 110 s_two_queued))) = []"
proof -
  have a: "\<not> production s_two_queued" "circular s_two_queued = (\<lambda>_. 0)"
    "events s_two_queued = []" "ran s_two_queued = []"
    by (simp_all add: s_two_queued_def queueWatcher_def nextTick_def init_state_def Let_def
        ran_def)
  have r: "ran (snd (flush_loop (user_run beh_self) 110 (flush_start s_two_queued))) = replicate 101 1"
    using self_loop_run by simp
  have x: "MAX_UPDATE_COUNT < requeues beh_self (ran s_two_queued)
     (drop (length (ran s_two_queued))
        (ran (snd (flush_loop (user_run beh_self) 110 (flush_start s_two_queued))))) 1"
    using requeues_self by (simp add: a r MAX_UPDATE_COUNT_def)
  from cycle_guard_ends_flush[OF a(1,2), of beh_self 110] x a r show ?thesis
    by (auto simp: Let_def)
qed

section \<open>Observing leaves existing Observers in place\<close>

lemma grows_refl [simp]: "grows s s"
  by (simp add: grows_def)







lemma count_root_frame [simp]:
  "heap (count_root r ob s) = heap s" "depUid (count_root r ob s) = depUid s"
  "cells (count_root r ob s) = cells s" "subs (count_root r ob s) = subs s"
  "rest (count_root r ob s) = rest s"
  "ob_value (observers (count_root r ob s) d) = ob_value (observers s d)"
  by (simp_all add: count_root_def rest_def split: option.splits)












lemma s_observed_facts:
  "observe 2 (Ref 1) True s_heap \<noteq> None"
  "o_ob (heap s_observed 1) = Some 0" "o_ob (heap s_observed 2) = Some 2"
  "o_kind (heap s_observed 1) = PlainObject" "depUid s_observed = 3"
  "o_slots (heap s_observed 1) (Name ''x'') = Some (Reactive 1)"
  "c_val (cells s_observed 1) = Ref 2" "c_childOb (cells s_observed 1) = Some 2"
  "ob_vmCount (observers s_observed 0) = 1"
  by (simp_all add: s_observed_def s_heap_def init_state_def empty_object_def no_object_def observe_with_def
      Observer_new_with_def defineReactive_with_def put_slot_def observable_def isVue_def chain_def
      isPlainObject_def count_root_def Let_def numeral_2_eq_2)

section \<open>Observing terminates and keeps the heap well-formed\<close>




































section \<open>Observing wraps what is reachable\<close>



lemma link_itemI:
  "o_kind (heap s a) = ArrayObject \<Longrightarrow> Ref b \<in> set (o_items (heap s a)) \<Longrightarrow> link s a b"
  unfolding link_def by simp



































section \<open>Writing a tracked property\<close>







lemma step_ok_refl [simp]: "step_ok s s"
  by (simp add: step_ok_def)





lemmas s_sync_defs = s_sync_def s_vm_def s_observed_def s_heap_def observe_with_def
  Observer_new_with_def defineReactive_with_def put_slot_def observable_def isVue_def chain_def
  isPlainObject_def count_root_def Let_def numeral_2_eq_2 empty_object_def
  get_def track_defs read1_def vals_def init_state_def new_watcher_def

lemma s_sync_facts:
  "subs s_sync 1 = [5]" "sync (watchers s_sync 5)" "\<not> lazy (watchers s_sync 5)"
  "active (watchers s_sync 5)"
  "getter_calls s_sync 5 = 1" "depUid s_sync = 3" "vals s_sync 1 = Ref 2"
  "\<not> c_shallow (cells s_sync 1)" "events s_sync = [Saw 5 1 (Ref 2), GetterCalled 5]"
  by (simp_all add: s_sync_defs getter_calls_def)



lemma s_sync_unobserved: "unobserved s_sync = {4}"
  by (auto simp: unobserved_def s_sync_defs no_object_def split: if_splits)

lemma s_sync_wf: "wf_heap s_sync"
  unfolding wf_heap_def s_sync_unobserved
  by (simp add: clean_def s_sync_defs)






section \<open>Adding properties with set\<close>

lemmas s_observed_defs = s_observed_def s_heap_def init_state_def empty_object_def no_object_def
  observe_with_def Observer_new_with_def defineReactive_with_def put_slot_def observable_def
  isVue_def chain_def isPlainObject_def count_root_def Let_def numeral_2_eq_2

lemma s_observed_eq:
  "s_observed = init_state\<lparr>depUid := 3,
     subs := (\<lambda>_. []),
     cells := (cells init_state)
       (1 := \<lparr>c_val = Ref 2, c_childOb = Some 2, c_shallow = False, c_customSetter = False\<rparr>),
     heap := (heap init_state)
       (2 := empty_object\<lparr>o_ob := Some 2\<rparr>,
        1 := empty_object\<lparr>o_ob := Some 0, o_keys := [Name ''x''],
               o_slots := (\<lambda>_. None)(Name ''x'' \<mapsto> Reactive 1)\<rparr>),
     observers := (observers init_state)
       (2 := \<lparr>ob_value = 2, ob_vmCount = 0\<rparr>, 0 := \<lparr>ob_value = 1, ob_vmCount = 1\<rparr>)\<rparr>"
  by (simp add: s_observed_defs fun_eq_iff)

lemmas s_observed_simps = s_observed_eq init_state_def empty_object_def no_object_def
  isVue_def chain_def

text \<open>
  Claim C10, as stated, fails when the key is already a property of the target: on the
  root data object 1, \<open>set\<close> with the existing key \<open>x\<close> assigns the value through the
  setter, so the target does change.
\<close>

theorem set_existing_key_on_root_changes_target:
  "o_ob (heap s_observed 1) = Some 0 \<and> ob_vmCount (observers s_observed 0) = 1 \<and>
   vals s_observed 1 = Ref 2 \<and>
   Vue_set 0 1 (Name ''x'') (Num 5) s_observed \<noteq> None \<and>
   fst (the (Vue_set 0 1 (Name ''x'') (Num 5) s_observed)) = Returns (Num 5) \<and>
   vals (snd (the (Vue_set 0 1 (Name ''x'') (Num 5) s_observed))) 1 = Num 5"
  by (simp add: Vue_set_def isValidArrayIndex_def has_key_def own_key_def lookup_ob_def
      Object_prototype_def
      put_property_def reactiveSetter_def unchanged_def strict_eq_def store_val_def
      notify_def returning_def vals_def observe_with_def s_observed_simps)

text \<open>
  Claim C10, amended. For a target that is a Vue instance or root data (it reads
  \<open>_isVue\<close>, or an Observer with positive \<open>vmCount\<close>, as its own or along its
  prototype chain) and a key that is not yet a property of the target (or is a key of
  \<open>Object.prototype\<close>), \<open>set\<close> returns \<open>val\<close> and leaves the whole state as it is (but
  for the diagnostic of a development build): no property is defined, nothing is
  notified. And for a target without Observer that is no Vue instance, \<open>set\<close> with a
  key that is not a property of the target creates an own data property and does
  nothing else when the target is extensible, and throws when it is not.
\<close>

theorem set_on_root_refused:
  "((isVue s a \<or> (\<exists>b. lookup_ob s a = Some b \<and> 0 < ob_vmCount (observers s b))) \<and>
    \<not> (o_kind (heap s a) = ArrayObject \<and> isValidArrayIndex k) \<and>
    (\<not> has_key s a k \<or> k \<in> Object_prototype) \<longrightarrow>
      Vue_set n a k v s = Some (Returns v, if production s then s else emit root_warning s)) \<and>
   (lookup_ob s a = None \<and> \<not> isVue s a \<and>
    \<not> (o_kind (heap s a) = ArrayObject \<and> isValidArrayIndex k) \<and> \<not> has_key s a k \<longrightarrow>
      Vue_set n a k v s =
        (if o_extensible (heap s a) then Some (Returns v, put_slot a k (Data v True True) s)
         else Some (Throws, s)))"
proof (intro conjI impI)
  assume "(isVue s a \<or> (\<exists>b. lookup_ob s a = Some b \<and> 0 < ob_vmCount (observers s b))) \<and>
    \<not> (o_kind (heap s a) = ArrayObject \<and> isValidArrayIndex k) \<and>
    (\<not> has_key s a k \<or> k \<in> Object_prototype)"
  then show "Vue_set n a k v s = Some (Returns v, if production s then s else emit root_warning s)"
    by (auto simp: Vue_set_def Let_def)
next
  assume h: "lookup_ob s a = None \<and> \<not> isVue s a \<and>
    \<not> (o_kind (heap s a) = ArrayObject \<and> isValidArrayIndex k) \<and> \<not> has_key s a k"
  have ls: "first_slot (heap s) k ps = None" if "\<not> list_ex (\<lambda>p. own_key (heap s p) k) ps" for ps
    using that by (induction ps) (auto simp: own_key_def)
  from h have 1: "first_slot (heap s) k (chain s a) = None" "k \<notin> o_inherited (heap s a)"
    "\<not> (o_kind (heap s a) = ArrayObject \<and> k = Name ''length'')"
    by (auto simp: has_key_def own_key_def chain_def intro!: ls)
  with h show "Vue_set n a k v s =
        (if o_extensible (heap s a) then Some (Returns v, put_slot a k (Data v True True) s)
         else Some (Throws, s))"
    by (auto simp: Vue_set_def Let_def put_property_def returning_def)
qed

lemma s_protos_facts:
  "isVue s_protos 3" "lookup_ob s_protos 1 = Some 0" "lookup_ob s_protos 5 = Some 0"
  "0 < ob_vmCount (observers s_protos 0)"
  "\<not> has_key s_protos 1 (Name ''y'')" "\<not> has_key s_protos 3 (Name ''y'')"
  "\<not> has_key s_protos 5 (Name ''y'')" "\<not> has_key s_protos 4 (Name ''y'')"
  "\<not> has_key s_protos 6 (Name ''y'')"
  "o_kind (heap s_protos 1) \<noteq> ArrayObject" "o_kind (heap s_protos 3) \<noteq> ArrayObject"
  "o_kind (heap s_protos 4) \<noteq> ArrayObject" "o_kind (heap s_protos 5) \<noteq> ArrayObject"
  "o_kind (heap s_protos 6) \<noteq> ArrayObject"
  "lookup_ob s_protos 4 = None" "lookup_ob s_protos 6 = None"
  "\<not> isVue s_protos 4" "\<not> isVue s_protos 6"
  "o_extensible (heap s_protos 4)" "\<not> o_extensible (heap s_protos 6)"
  "\<not> production s_protos"
  by (simp_all add: s_protos_def s_vm_def has_key_def own_key_def lookup_ob_def
      Object_prototype_def s_observed_simps)

theorem set_on_root_refused_witness:
  "isVue s_protos 3 \<and> lookup_ob s_protos 1 = Some 0 \<and> lookup_ob s_protos 5 = Some 0 \<and>
   0 < ob_vmCount (observers s_protos 0) \<and>
   Vue_set 0 3 (Name ''y'') (Num 5) s_protos = Some (Returns (Num 5), emit root_warning s_protos) \<and>
   Vue_set 0 1 (Name ''y'') (Num 5) s_protos = Some (Returns (Num 5), emit root_warning s_protos) \<and>
   Vue_set 0 5 (Name ''y'') (Num 5) s_protos = Some (Returns (Num 5), emit root_warning s_protos) \<and>
   Vue_set 0 4 (Name ''y'') (Num 5) s_protos =
     Some (Returns (Num 5), put_slot 4 (Name ''y'') (Data (Num 5) True True) s_protos) \<and>
   Vue_set 0 6 (Name ''y'') (Num 5) s_protos = Some (Throws, s_protos)"
  using set_on_root_refused[of s_protos 3 "Name ''y''" 0 "Num 5"]
    set_on_root_refused[of s_protos 1 "Name ''y''" 0 "Num 5"]
    set_on_root_refused[of s_protos 5 "Name ''y''" 0 "Num 5"]
    set_on_root_refused[of s_protos 4 "Name ''y''" 0 "Num 5"]
    set_on_root_refused[of s_protos 6 "Name ''y''" 0 "Num 5"]
    s_protos_facts
  by simp

end
